theory Spec2Isabelle
  imports Complex_Main "HOL-Library.Sublist"
begin

section \<open>Numbers\<close>

text \<open>
  The handler of \<^verbatim>\<open>src/pages/api/generate-video.ts\<close> computes the geometry of every
  frame with JavaScript numbers. They are modelled here as exact reals: \<open>Math.cos\<close> is
  \<open>cos\<close>, \<open>Math.PI\<close> is \<open>pi\<close>, and the binary rounding of IEEE doubles is left out of the
  model. What is proved below holds of the exact values; the double that the code computes
  can differ from the exact value in its last bit, so an equation between two computed
  numbers holds up to that rounding. Pixel sizes, which the code obtains from
  \<open>Math.round\<close>, are integers.

  \<open>Math.round x\<close> is the integer nearest to \<open>x\<close>, a tie going towards plus infinity.
\<close>

definition js_round :: "real \<Rightarrow> int" where
  "js_round x = \<lfloor>x + 1 / 2\<rfloor>"

section \<open>Zoom geometry\<close>

text \<open>
  \<^verbatim>\<open>const easeInOutSine = (t: number) => (1 - Math.cos(Math.PI * t)) / 2\<close>

  This is the exact function, which the code approximates in doubles: at \<open>t = 0.5\<close> the
  exact value is \<open>1/2\<close> and the double is \<open>0.49999999999999994\<close>. It serves below to
  bound and to order the scale factors, which rounding to nearest keeps in order; no
  equation between two computed doubles is derived from it.
\<close>

definition easeInOutSine :: "real \<Rightarrow> real" where
  "easeInOutSine t = (1 - cos (pi * t)) / 2"

text \<open>\<^verbatim>\<open>const zoomFactor = 0.6\<close>\<close>

definition zoomFactor :: real where
  "zoomFactor = 6 / 10"

text \<open>
  \<^verbatim>\<open>const minFactor = Math.max(1280 / iw, 720 / ih)\<close>

  The handler never divides by zero here: it takes \<open>iw\<close> and \<open>ih\<close> from the metadata of
  the image with a default that also replaces 0.
\<close>

definition minFactor :: "nat \<Rightarrow> nat \<Rightarrow> real" where
  "minFactor iw ih = max (1280 / real iw) (720 / real ih)"

text \<open>\<^verbatim>\<open>const t = frames === 1 ? 1 : i / (frames - 1)\<close>\<close>

definition frame_t :: "nat \<Rightarrow> nat \<Rightarrow> real" where
  "frame_t frames i = (if frames = 1 then 1 else real i / (real frames - 1))"

text \<open>
  \<^verbatim>\<open>let factor = 1 + zoomFactor * et; factor = Math.max(factor, minFactor)\<close>
\<close>

definition frame_factor :: "nat \<Rightarrow> nat \<Rightarrow> nat \<Rightarrow> nat \<Rightarrow> real" where
  "frame_factor iw ih frames i =
     max (1 + zoomFactor * easeInOutSine (frame_t frames i)) (minFactor iw ih)"

text \<open>
  What one turn of the frame loop hands to \<open>sharp\<close>: the size the image is resized to
  and the rectangle that \<open>extract\<close> cuts out of it.
\<close>

record frame_spec =
  scaledW :: int
  scaledH :: int
  left :: int
  top :: int
  width :: int
  height :: int

definition frame_geometry :: "nat \<Rightarrow> nat \<Rightarrow> nat \<Rightarrow> nat \<Rightarrow> frame_spec" where
  "frame_geometry iw ih frames i =
     (let factor = frame_factor iw ih frames i;
          floatScaledW = real iw * factor;
          floatScaledH = real ih * factor;
          sW = js_round floatScaledW;
          sH = js_round floatScaledH
      in \<lparr> scaledW = sW, scaledH = sH,
           left = max 0 (js_round ((floatScaledW - 1280) / 2)),
           top = max 0 (js_round ((floatScaledH - 720) / 2)),
           width = min 1280 sW, height = min 720 sH \<rparr>)"

section \<open>Strings\<close>

text \<open>
  A JavaScript string is modelled as a list of characters. \<open>String n\<close> of a
  non-negative integer is its decimal notation.
\<close>

definition digit :: "nat \<Rightarrow> char" where
  "digit d = ''0123456789'' ! d"

fun dec :: "nat \<Rightarrow> string" where
  "dec n = (if n < 10 then [digit n] else dec (n div 10) @ [digit (n mod 10)])"

declare dec.simps [simp del]

text \<open>\<open>s.padStart n c\<close>.\<close>

definition padStart :: "nat \<Rightarrow> char \<Rightarrow> string \<Rightarrow> string" where
  "padStart n c s = replicate (n - length s) c @ s"

text \<open>
  \<open>s.trim ()\<close> removes the white space and the line terminators at both ends. Of the
  characters that ECMAScript counts as such, these are the ones below U+0100: tab, line
  feed, vertical tab, form feed, carriage return, space and no-break space.
\<close>

definition is_space :: "char \<Rightarrow> bool" where
  "is_space c = (c \<in> set [CHR 0x09, CHR 0x0A, CHR 0x0B, CHR 0x0C, CHR 0x0D, CHR 0x20, CHR 0xA0])"

definition trim :: "string \<Rightarrow> string" where
  "trim s = rev (dropWhile is_space (rev (dropWhile is_space s)))"

text \<open>
  \<open>s.replace (/c/g, r)\<close> for a single character \<open>c\<close>: every occurrence of \<open>c\<close> becomes
  the string \<open>r\<close>.
\<close>

primrec replace_all :: "char \<Rightarrow> string \<Rightarrow> string \<Rightarrow> string" where
  "replace_all c r [] = []"
| "replace_all c r (x # xs) = (if x = c then r else [x]) @ replace_all c r xs"

section \<open>The text overlay\<close>

text \<open>
  \<^verbatim>\<open>const escapeXml = (str: string) => str.replace(/&/g, '&amp;').replace(/</g, '&lt;')\<close>
  \<^verbatim>\<open>  .replace(/>/g, '&gt;').replace(/"/g, '&quot;').replace(/'/g, '&apos;')\<close>

  The zoom path and the slide path each declare this function, with the same body
  (the zoom path writes the fourth pattern with a backslash before the quotation mark,
  which denotes the same pattern). \<open>CHR 0x22\<close> is the quotation mark and \<open>CHR 0x27\<close>
  the apostrophe.
\<close>

definition escapeXml :: "string \<Rightarrow> string" where
  "escapeXml str =
     replace_all (CHR 0x27) ''&apos;''
       (replace_all (CHR 0x22) ''&quot;''
         (replace_all CHR ''>'' ''&gt;''
           (replace_all CHR ''<'' ''&lt;''
             (replace_all CHR ''&'' ''&amp;'' str))))"

text \<open>
  The SVG document of the overlay, a template literal with four holes: the width and the
  height of the canvas, the font size (twice) and the text (twice).
\<close>

definition svg_before :: "string \<Rightarrow> string \<Rightarrow> string \<Rightarrow> string" where
  \<open>svg_before w h fontSize =
     ''<?xml version="1.0" encoding="UTF-8"?>'' @ [CHR 0x0A] @
     ''<svg width="'' @ w @ ''" height="'' @ h @ ''" xmlns="http://www.w3.org/2000/svg">'' @ [CHR 0x0A] @
     ''  <style>'' @ [CHR 0x0A] @
     ''    .title { fill: white; font-size: '' @ fontSize @
     ''px; font-weight: 700; font-family: Arial, Helvetica, sans-serif; text-anchor: middle; }'' @ [CHR 0x0A] @
     ''    .shadow { fill: black; opacity: 0.6; font-size: '' @ fontSize @
     ''px; font-weight:700; font-family: Arial, Helvetica, sans-serif; text-anchor: middle; }'' @ [CHR 0x0A] @
     ''  </style>'' @ [CHR 0x0A] @
     ''  <g>'' @ [CHR 0x0A] @
     ''    <text x="50%" y="88%" class="shadow" dy="2">''\<close>

definition svg_between :: string where
  \<open>svg_between = ''</text>'' @ [CHR 0x0A] @ ''    <text x="50%" y="86%" class="title">''\<close>

definition svg_after :: string where
  \<open>svg_after = ''</text>'' @ [CHR 0x0A] @ ''  </g>'' @ [CHR 0x0A] @ ''</svg>''\<close>

definition overlay_svg :: "string \<Rightarrow> string \<Rightarrow> string \<Rightarrow> string \<Rightarrow> string" where
  "overlay_svg w h fontSize text = svg_before w h fontSize @ text @ svg_between @ text @ svg_after"

text \<open>
  The zoom path, inside the frame loop:
  \<^verbatim>\<open>const fontSize = Math.max(28, Math.round(Math.min(scaledW, scaledH) / 24))\<close>
\<close>

definition zoom_fontSize :: "frame_spec \<Rightarrow> int" where
  "zoom_fontSize g = max 28 (js_round (real_of_int (min (scaledW g) (scaledH g)) / 24))"

definition zoom_svg :: "frame_spec \<Rightarrow> string \<Rightarrow> string" where
  "zoom_svg g productName =
     overlay_svg ''1280'' ''720'' (dec (nat (zoom_fontSize g))) (escapeXml (trim productName))"

text \<open>
  The slide path, on the whole image of \<open>w\<close> by \<open>h\<close> pixels:
  \<^verbatim>\<open>const fontSize = Math.max(28, Math.round(w / 24))\<close>
\<close>

definition slide_fontSize :: "nat \<Rightarrow> int" where
  "slide_fontSize w = max 28 (js_round (real w / 24))"

definition slide_svg :: "nat \<Rightarrow> nat \<Rightarrow> string \<Rightarrow> string" where
  "slide_svg w h productName =
     overlay_svg (dec w) (dec h) (dec (nat (slide_fontSize w))) (escapeXml (trim productName))"

text \<open>
  \<^verbatim>\<open>const showText = includeText !== false && !!productName && productName.trim().length > 0\<close>

  An optional field of the request body is \<open>None\<close> when the request leaves it out.
\<close>

definition showText :: "bool option \<Rightarrow> string option \<Rightarrow> bool" where
  "showText includeText productName =
     (includeText \<noteq> Some False \<and>
      (case productName of None \<Rightarrow> False | Some s \<Rightarrow> s \<noteq> [] \<and> 0 < length (trim s)))"

section \<open>Templates, requests and responses\<close>

datatype style = Zoom | Slide

record template =
  template_id :: string
  template_name :: string
  style :: style
  musicFile :: string
  durationSeconds :: nat

definition templates :: "template list" where
  "templates =
     [\<lparr> template_id = ''zoom-ambient'', template_name = ''Ambient Zoom'', style = Zoom,
        musicFile = ''/musics/ambient.mp3'', durationSeconds = 6 \<rparr>,
      \<lparr> template_id = ''slide-funky'', template_name = ''Funky Slide'', style = Slide,
        musicFile = ''/musics/funky.mp3'', durationSeconds = 6 \<rparr>]"

definition getTemplateById :: "string \<Rightarrow> template option" where
  "getTemplateById i = find (\<lambda>t. template_id t = i) templates"

text \<open>
  The request: its method (\<open>req.method\<close>) and the four fields of \<open>Body\<close>. A field
  is \<open>None\<close> when the body leaves it out.
\<close>

record request =
  req_method :: string
  imageKey :: "string option"
  templateId :: "string option"
  productName :: "string option"
  includeText :: "bool option"

text \<open>\<open>res.status(n).json(...)\<close>: the status and either \<open>{ error }\<close> or \<open>{ videoUrl }\<close>.\<close>

datatype json = ErrorBody string | VideoUrlBody string

datatype response = Response nat json

text \<open>What \<open>!v\<close> is for an optional string: left out, or empty.\<close>

definition falsy :: "string option \<Rightarrow> bool" where
  "falsy v = (case v of None \<Rightarrow> True | Some s \<Rightarrow> s = [])"

section \<open>The world outside the handler\<close>

text \<open>
  What the handler reads from outside is a parameter of the model: the environment
  variable and the two other sources of the encoder binary, the directories, the clock
  at each of the five places that call \<open>Date.now\<close>, and for every operation that can
  throw, whether it does, and with which message.
\<close>

type_synonym buffer = "nat list"

datatype fs_op = Write | Mkdir | Unlink | Rm | Read

record env =
  FFMPEG_PATH :: "string option"
  ffmpegStatic :: "string option"
  existsSync :: "string \<Rightarrow> bool"
  which_ffmpeg :: "string option"
  tmpdir :: string
  cwd :: string
  now_input :: nat
  now_output :: nat
  now_frames :: nat
  now_slide :: nat
  now_key :: nat
  s3_get :: "string \<Rightarrow> string + buffer"
  s3_put :: "string \<Rightarrow> string + string"
  fs_error :: "fs_op \<Rightarrow> string \<Rightarrow> string option"
  stat_size :: "string \<Rightarrow> nat option"
  metadata :: "buffer \<Rightarrow> string + (nat option \<times> nat option)"
  toFile_error :: "string \<Rightarrow> string option"
  ffmpeg_error :: "string option"

text \<open>
  What the handler does to the outside: the files that exist, the calls made to the
  object storage, to \<open>sharp\<close> and to the encoder, in order, and (for the record only) the
  paths that have been written so far.
\<close>

datatype call =
    GetObject string
  | PutObject string
  | SharpMetadata
  | RenderFrame frame_spec "string option" string
  | CompositeSlide string string
  | Ffmpeg string string "string option" string

record world =
  files :: "string set"
  created :: "string set"
  calls :: "call list"

text \<open>
  A computation runs on a world and either returns a value or throws an error with a
  message; the world it leaves is there in both cases.
\<close>

type_synonym 'a io = "world \<Rightarrow> (string + 'a) \<times> world"

definition ret :: "'a \<Rightarrow> 'a io" where
  "ret x w = (Inr x, w)"

definition andThen :: "'a io \<Rightarrow> ('a \<Rightarrow> 'b io) \<Rightarrow> 'b io" where
  "andThen m f w = (case m w of (Inl e, w') \<Rightarrow> (Inl e, w') | (Inr x, w') \<Rightarrow> f x w')"

text \<open>\<open>try { m } catch (e) { h e }\<close>\<close>

definition attempt :: "'a io \<Rightarrow> (string \<Rightarrow> 'a io) \<Rightarrow> 'a io" where
  "attempt m h w = (case m w of (Inl e, w') \<Rightarrow> h e w' | (Inr x, w') \<Rightarrow> (Inr x, w'))"

definition log_call :: "call \<Rightarrow> world \<Rightarrow> world" where
  "log_call c w = w\<lparr>calls := calls w @ [c]\<rparr>"

definition create_file :: "string \<Rightarrow> world \<Rightarrow> world" where
  "create_file p w = w\<lparr>files := insert p (files w), created := insert p (created w)\<rparr>"

text \<open>
  The file system. An operation that throws leaves the files as they are. \<open>unlinkSync\<close>
  and \<open>readFileSync\<close> throw when the file is not there; \<open>rmSync\<close> with \<open>recursive\<close> and
  \<open>force\<close> removes the directory and everything below it.
\<close>

definition enoent :: string where
  "enoent = ''ENOENT: no such file or directory''"

definition writeFileSync :: "env \<Rightarrow> string \<Rightarrow> unit io" where
  "writeFileSync e p w =
     (case fs_error e Write p of Some msg \<Rightarrow> (Inl msg, w) | None \<Rightarrow> (Inr (), create_file p w))"

definition mkdirSync :: "env \<Rightarrow> string \<Rightarrow> unit io" where
  "mkdirSync e p w =
     (case fs_error e Mkdir p of Some msg \<Rightarrow> (Inl msg, w) | None \<Rightarrow> (Inr (), create_file p w))"

definition unlinkSync :: "env \<Rightarrow> string \<Rightarrow> unit io" where
  "unlinkSync e p w =
     (case fs_error e Unlink p of
        Some msg \<Rightarrow> (Inl msg, w)
      | None \<Rightarrow> if p \<in> files w then (Inr (), w\<lparr>files := files w - {p}\<rparr>) else (Inl enoent, w))"

definition rmSync :: "env \<Rightarrow> string \<Rightarrow> unit io" where
  "rmSync e p w =
     (case fs_error e Rm p of
        Some msg \<Rightarrow> (Inl msg, w)
      | None \<Rightarrow> (Inr (), w\<lparr>files := {q \<in> files w. q \<noteq> p \<and> \<not> prefix (p @ ''/'') q}\<rparr>))"

definition readFileSync :: "env \<Rightarrow> string \<Rightarrow> unit io" where
  "readFileSync e p w =
     (case fs_error e Read p of
        Some msg \<Rightarrow> (Inl msg, w)
      | None \<Rightarrow> if p \<in> files w then (Inr (), w) else (Inl enoent, w))"

text \<open>
  \<open>path.join\<close> on POSIX, as Node defines it: the arguments that are not empty are joined
  with slashes and the result is normalised. \<open>normalizeString\<close> walks through the
  segments between the slashes with the segments kept so far: an empty segment and \<open>.\<close>
  are dropped, \<open>..\<close> removes the last segment kept (above the start of a relative path
  it is kept itself), every other segment is kept.
\<close>

primrec split_slash :: "string \<Rightarrow> string list" where
  "split_slash [] = [[]]"
| "split_slash (c # cs) =
     (if c = CHR ''/'' then [] # split_slash cs
      else (case split_slash cs of [] \<Rightarrow> [[c]] | s # ss \<Rightarrow> (c # s) # ss))"

primrec join_slash :: "string list \<Rightarrow> string" where
  "join_slash [] = []"
| "join_slash (s # ss) = (if ss = [] then s else s @ ''/'' @ join_slash ss)"

primrec normalizeString :: "bool \<Rightarrow> string list \<Rightarrow> string list \<Rightarrow> string list" where
  "normalizeString allowAboveRoot res [] = res"
| "normalizeString allowAboveRoot res (s # ss) =
     normalizeString allowAboveRoot
       (if s = [] \<or> s = ''.'' then res
        else if s = ''..'' then
          (if res \<noteq> [] \<and> last res \<noteq> ''..'' then butlast res
           else if allowAboveRoot then res @ [''..''] else res)
        else res @ [s])
       ss"

definition path_normalize :: "string \<Rightarrow> string" where
  "path_normalize path =
     (if path = [] then ''.''
      else
        let isAbsolute = (hd path = CHR ''/'');
            trailingSeparator = (last path = CHR ''/'');
            body = join_slash (normalizeString (\<not> isAbsolute) [] (split_slash path))
        in if body = [] then (if isAbsolute then ''/'' else if trailingSeparator then ''./'' else ''.'')
           else (if isAbsolute then ''/'' else []) @ body @ (if trailingSeparator then ''/'' else []))"

definition path_join :: "string list \<Rightarrow> string" where
  "path_join args =
     (let joined = join_slash (filter (\<lambda>a. a \<noteq> []) args)
      in if joined = [] then ''.'' else path_normalize joined)"

text \<open>The object storage of \<open>lib/s3\<close>, \<open>sharp\<close> and the encoder.\<close>

definition getObjectBuffer :: "env \<Rightarrow> string \<Rightarrow> buffer io" where
  "getObjectBuffer e k w = (s3_get e k, log_call (GetObject k) w)"

definition uploadToS3 :: "env \<Rightarrow> string \<Rightarrow> string io" where
  "uploadToS3 e k w = (s3_put e k, log_call (PutObject k) w)"

definition sharp_metadata :: "env \<Rightarrow> buffer \<Rightarrow> (nat option \<times> nat option) io" where
  "sharp_metadata e b w = (metadata e b, log_call SharpMetadata w)"

definition sharp_toFile :: "env \<Rightarrow> call \<Rightarrow> string \<Rightarrow> unit io" where
  "sharp_toFile e job p w =
     (case toFile_error e p of
        Some msg \<Rightarrow> (Inl msg, log_call job w)
      | None \<Rightarrow> (Inr (), create_file p (log_call job w)))"

definition ffmpeg_save :: "env \<Rightarrow> call \<Rightarrow> string \<Rightarrow> unit io" where
  "ffmpeg_save e job p w =
     (case ffmpeg_error e of
        Some msg \<Rightarrow> (Inl msg, log_call job w)
      | None \<Rightarrow> (Inr (), create_file p (log_call job w)))"

section \<open>The encoder binary\<close>

text \<open>
  The module resolves the binary once, when it is loaded: the environment variable,
  else the bundled binary; dropped when that file does not exist; then, when there is
  none, what \<open>which\<close> finds on PATH (\<open>None\<close> when it throws).
\<close>

definition ffmpegPath :: "env \<Rightarrow> string option" where
  "ffmpegPath e =
     (let p0 = (if \<not> falsy (FFMPEG_PATH e) then FFMPEG_PATH e
                else if \<not> falsy (ffmpegStatic e) then ffmpegStatic e else None);
          p1 = (case p0 of None \<Rightarrow> None | Some p \<Rightarrow> if \<not> existsSync e p then None else Some p)
      in if falsy p1
         then (case which_ffmpeg e of None \<Rightarrow> None | Some wp \<Rightarrow> if wp \<noteq> [] then Some wp else p1)
         else p1)"

section \<open>The handler\<close>

text \<open>The temporary paths of a run, each named after the clock.\<close>

definition inputImagePath :: "env \<Rightarrow> string" where
  "inputImagePath e = path_join [tmpdir e, ''input-'' @ dec (now_input e) @ ''.jpg'']"

definition outputVideoPath :: "env \<Rightarrow> string" where
  "outputVideoPath e = path_join [tmpdir e, ''output-'' @ dec (now_output e) @ ''.mp4'']"

definition framesDir :: "env \<Rightarrow> string" where
  "framesDir e = path_join [tmpdir e, ''frames-'' @ dec (now_frames e)]"

definition withTextPath :: "env \<Rightarrow> string" where
  "withTextPath e = path_join [tmpdir e, ''slide-input-'' @ dec (now_slide e) @ ''.png'']"

definition temp_paths :: "env \<Rightarrow> string list" where
  "temp_paths e = [inputImagePath e, outputVideoPath e, framesDir e, withTextPath e]"

text \<open>
  \<^verbatim>\<open>const musicFullPath = path.join(process.cwd(), 'public', template.musicFile)\<close>
  and the audio input of the encoder: the music when \<open>statSync\<close> finds more than 1024
  bytes, else generated silence.
\<close>

definition musicFullPath :: "env \<Rightarrow> template \<Rightarrow> string" where
  "musicFullPath e t = path_join [cwd e, ''public'', musicFile t]"

definition audioFileAvailable :: "env \<Rightarrow> template \<Rightarrow> bool" where
  "audioFileAvailable e t =
     (case stat_size e (musicFullPath e t) of None \<Rightarrow> False | Some n \<Rightarrow> 1024 < n)"

definition audio_input :: "env \<Rightarrow> template \<Rightarrow> string" where
  "audio_input e t =
     (if audioFileAvailable e t then musicFullPath e t
      else ''anullsrc=channel_layout=stereo:sample_rate=44100'')"

definition fps :: nat where
  "fps = 25"

definition frames :: "template \<Rightarrow> nat" where
  "frames t = durationSeconds t * fps"

text \<open>\<open>metadata.width || 1280\<close>: the default replaces a missing and a zero value.\<close>

definition or_default :: "nat option \<Rightarrow> nat \<Rightarrow> nat" where
  "or_default v d = (case v of None \<Rightarrow> d | Some n \<Rightarrow> if n = 0 then d else n)"

text \<open>The zoom style: one file for each frame, then the encoder, then the cleanup.\<close>

definition frame_path :: "string \<Rightarrow> nat \<Rightarrow> string" where
  "frame_path dir i = path_join [dir, ''frame-'' @ padStart 4 CHR ''0'' (dec i) @ ''.png'']"

definition frame_overlay :: "bool \<Rightarrow> string option \<Rightarrow> frame_spec \<Rightarrow> string option" where
  "frame_overlay st pn g =
     (if st then (case pn of None \<Rightarrow> None | Some s \<Rightarrow> Some (zoom_svg g s)) else None)"

definition render_frame ::
  "env \<Rightarrow> string \<Rightarrow> nat \<Rightarrow> nat \<Rightarrow> nat \<Rightarrow> bool \<Rightarrow> string option \<Rightarrow> nat \<Rightarrow> unit io" where
  "render_frame e dir iw ih n st pn i =
     (let g = frame_geometry iw ih n i;
          outPath = frame_path dir i
      in sharp_toFile e (RenderFrame g (frame_overlay st pn g) outPath) outPath)"

text \<open>\<^verbatim>\<open>for (let i = 0; i < frames; i++)\<close>, with \<open>n\<close> turns left before turn \<open>i\<close>.\<close>

primrec frame_loop :: "(nat \<Rightarrow> unit io) \<Rightarrow> nat \<Rightarrow> nat \<Rightarrow> unit io" where
  "frame_loop body i 0 = ret ()"
| "frame_loop body i (Suc n) = andThen (body i) (\<lambda>_. frame_loop body (Suc i) n)"

definition zoom_branch ::
  "env \<Rightarrow> template \<Rightarrow> buffer \<Rightarrow> bool \<Rightarrow> string option \<Rightarrow> unit io" where
  "zoom_branch e t imageBuffer st pn =
     andThen (mkdirSync e (framesDir e)) (\<lambda>_.
     andThen (sharp_metadata e imageBuffer) (\<lambda>m.
       let iw = or_default (fst m) 1280;
           ih = or_default (snd m) 720
       in
     andThen (frame_loop (render_frame e (framesDir e) iw ih (frames t) st pn) 0 (frames t)) (\<lambda>_.
     andThen (ffmpeg_save e
                (Ffmpeg (path_join [framesDir e, ''frame-%04d.png'']) (audio_input e t) None
                   (outputVideoPath e))
                (outputVideoPath e)) (\<lambda>_.
     rmSync e (framesDir e)))))"

text \<open>
  The slide style: the text is composited onto the image once; when that throws, the
  run goes on without the text. The encoder pans over the image.
\<close>

definition composite_slide :: "env \<Rightarrow> buffer \<Rightarrow> string \<Rightarrow> string io" where
  "composite_slide e imageBuffer s =
     andThen (sharp_metadata e imageBuffer) (\<lambda>m.
       let w = or_default (fst m) 1280;
           h = or_default (snd m) 720
       in
     andThen (sharp_toFile e (CompositeSlide (slide_svg w h s) (withTextPath e)) (withTextPath e)) (\<lambda>_.
     ret (withTextPath e)))"

definition slide_filters :: "template \<Rightarrow> string" where
  "slide_filters t =
     ''fps='' @ dec fps @ '',scale=1280:-1,crop=1280:720:x='' @ [CHR 0x27] @
     ''min(max(0,(iw-1280)*n/'' @ dec (durationSeconds t * fps) @ ''),iw-1280)'' @ [CHR 0x27] @
     '':y=0''"

definition slide_branch ::
  "env \<Rightarrow> template \<Rightarrow> buffer \<Rightarrow> bool \<Rightarrow> string option \<Rightarrow> unit io" where
  "slide_branch e t imageBuffer st pn =
     andThen
       (if st
        then (case pn of
                None \<Rightarrow> ret (inputImagePath e)
              | Some s \<Rightarrow> attempt (composite_slide e imageBuffer s) (\<lambda>_. ret (inputImagePath e)))
        else ret (inputImagePath e)) (\<lambda>slideInput.
     andThen (ffmpeg_save e
                (Ffmpeg slideInput (audio_input e t) (Some (slide_filters t)) (outputVideoPath e))
                (outputVideoPath e)) (\<lambda>_.
     attempt
       (if slideInput \<noteq> inputImagePath e then unlinkSync e slideInput else ret ())
       (\<lambda>_. ret ())))"

text \<open>The body of the \<open>try\<close> block; it returns the URL of the uploaded video.\<close>

definition video_key :: "env \<Rightarrow> string" where
  "video_key e =
     ''videos/'' @ dec (now_key e) @ ''-'' @ ''output-'' @ dec (now_output e) @ ''.mp4'' @ ''.mp4''"

definition generate ::
  "env \<Rightarrow> string \<Rightarrow> template \<Rightarrow> string option \<Rightarrow> bool option \<Rightarrow> string io" where
  "generate e key t pn it =
     andThen (getObjectBuffer e key) (\<lambda>imageBuffer.
     andThen (writeFileSync e (inputImagePath e)) (\<lambda>_.
     andThen
       (if style t = Zoom
        then zoom_branch e t imageBuffer (showText it pn) pn
        else slide_branch e t imageBuffer (showText it pn) pn) (\<lambda>_.
     andThen (readFileSync e (outputVideoPath e)) (\<lambda>_.
     andThen (uploadToS3 e (video_key e)) (\<lambda>videoUrl.
     andThen (unlinkSync e (inputImagePath e)) (\<lambda>_.
     andThen (unlinkSync e (outputVideoPath e)) (\<lambda>_.
     ret videoUrl)))))))"

definition no_ffmpeg :: string where
  "no_ffmpeg = ''FFmpeg binary not found. Set FFMPEG_PATH, install ffmpeg on PATH, or include a compatible ffmpeg binary for your host.''"

definition handler :: "env \<Rightarrow> request \<Rightarrow> world \<Rightarrow> response \<times> world" where
  "handler e req w =
     (if req_method req \<noteq> ''POST'' then (Response 405 (ErrorBody ''Method not allowed''), w)
      else case (imageKey req, templateId req) of
        (Some key, Some tid) \<Rightarrow>
          if key = [] \<or> tid = [] then (Response 400 (ErrorBody ''Missing params''), w)
          else (case getTemplateById tid of
            None \<Rightarrow> (Response 400 (ErrorBody ''Invalid template''), w)
          | Some t \<Rightarrow>
              if falsy (ffmpegPath e) then (Response 500 (ErrorBody no_ffmpeg), w)
              else (case generate e key t (productName req) (includeText req) w of
                (Inl msg, w') \<Rightarrow>
                  (Response 500 (ErrorBody (if msg = [] then ''Video generation failed'' else msg)), w')
              | (Inr videoUrl, w') \<Rightarrow> (Response 200 (VideoUrlBody videoUrl), w')))
      | _ \<Rightarrow> (Response 400 (ErrorBody ''Missing params''), w))"

text \<open>
  A world is clean except for the paths of \<open>S\<close> when every file that has been written and
  still exists is in \<open>S\<close>.
\<close>

definition clean_except :: "string set \<Rightarrow> world \<Rightarrow> bool" where
  "clean_except S w = (files w \<inter> created w \<subseteq> S)"

section \<open>Example runs\<close>

text \<open>
  A deployment in which everything works: the bundled encoder exists, the storage
  answers, the image is 1920 by 1080 pixels, and no operation throws. The two paths of
  the image and of the video are named in the same millisecond. The URL that the upload
  returns ends in the key with its slash percent-encoded, as \<open>encodeURIComponent\<close>
  leaves it.
\<close>

definition ok_env :: env where
  "ok_env =
     \<lparr> FFMPEG_PATH = None, ffmpegStatic = Some ''/app/node_modules/ffmpeg-static/ffmpeg'',
       existsSync = (\<lambda>_. True), which_ffmpeg = None,
       tmpdir = ''/tmp'', cwd = ''/app'',
       now_input = 1000, now_output = 1000, now_frames = 1001, now_slide = 1001, now_key = 1002,
       s3_get = (\<lambda>_. Inr [255, 216, 255]),
       s3_put = (\<lambda>k. Inr (''https://bucket.s3.us-east-1.amazonaws.com/'' @
                         replace_all CHR ''/'' ''%2F'' k)),
       fs_error = (\<lambda>_ _. None), stat_size = (\<lambda>_. Some 2048),
       metadata = (\<lambda>_. Inr (Some 1920, Some 1080)), toFile_error = (\<lambda>_. None),
       ffmpeg_error = None \<rparr>"

text \<open>The same deployment with no encoder: the bundled binary is not on the disk.\<close>

definition no_encoder_env :: env where
  "no_encoder_env = ok_env \<lparr> existsSync := (\<lambda>_. False) \<rparr>"

text \<open>The same deployment when the upload of the video fails.\<close>

definition upload_fails_env :: env where
  "upload_fails_env = ok_env \<lparr> s3_put := (\<lambda>_. Inl ''AccessDenied'') \<rparr>"

text \<open>The same deployment when \<open>sharp\<close> cannot write the slide composite.\<close>

definition composite_fails_env :: env where
  "composite_fails_env =
     ok_env \<lparr> toFile_error := (\<lambda>p. if p = ''/tmp/slide-input-1001.png''
                                   then Some ''Input buffer contains unsupported image format''
                                   else None) \<rparr>"

text \<open>The same deployment a few milliseconds later.\<close>

definition later_env :: env where
  "later_env =
     ok_env \<lparr> now_input := 1003, now_output := 1003, now_frames := 1004, now_slide := 1004,
              now_key := 1005 \<rparr>"

text \<open>
  A second run of the same process that names its paths in the same milliseconds, for
  another image.
\<close>

definition same_ms_env :: env where
  "same_ms_env = ok_env \<lparr> now_key := 1003, metadata := (\<lambda>_. Inr (Some 800, Some 600)) \<rparr>"

definition slide_request :: request where
  "slide_request =
     \<lparr> req_method = ''POST'', imageKey = Some ''uploads/1-a.jpg'', templateId = Some ''slide-funky'',
       productName = Some ''A&B<Test>'', includeText = Some True \<rparr>"

definition zoom_request :: request where
  "zoom_request = slide_request \<lparr> templateId := Some ''zoom-ambient'' \<rparr>"

definition other_slide_request :: request where
  "other_slide_request = slide_request \<lparr> imageKey := Some ''uploads/2-b.jpg'' \<rparr>"

text \<open>The same request with \<open>includeText\<close> left out.\<close>

definition default_text_request :: request where
  "default_text_request = slide_request \<lparr> includeText := None \<rparr>"

definition blank_name_request :: request where
  "blank_name_request = slide_request \<lparr> productName := Some ''   '' \<rparr>"

definition no_image_request :: request where
  "no_image_request = slide_request \<lparr> imageKey := None \<rparr>"

definition unknown_template_request :: request where
  "unknown_template_request = slide_request \<lparr> templateId := Some ''spin-jazzy'' \<rparr>"

definition empty_world :: world where
  "empty_world = \<lparr> files = {}, created = {}, calls = [] \<rparr>"

section \<open>What the calls of a run are checked against\<close>

text \<open>The calls that a run adds to the log, in order.\<close>

definition new_calls :: "world \<Rightarrow> world \<Rightarrow> call list" where
  "new_calls w w' = drop (length (calls w)) (calls w')"

text \<open>
  A computation emits \<open>P\<close> when every call it logs satisfies \<open>P\<close>, whether it returns
  or throws.
\<close>

definition emits :: "(call \<Rightarrow> bool) \<Rightarrow> 'a io \<Rightarrow> bool" where
  "emits P m =
     (\<forall>w r w'. m w = (r, w') \<longrightarrow> (\<exists>cs. calls w' = calls w @ cs \<and> (\<forall>c\<in>set cs. P c)))"

text \<open>
  The size that \<open>sharp\<close> reports for the image of a request, with the defaults of the
  handler; \<open>None\<close> when the storage or \<open>sharp\<close> throws.
\<close>

definition buffer_dims :: "env \<Rightarrow> buffer \<Rightarrow> (nat \<times> nat) option" where
  "buffer_dims e b =
     (case metadata e b of
        Inl _ \<Rightarrow> None
      | Inr m \<Rightarrow> Some (or_default (fst m) 1280, or_default (snd m) 720))"

definition key_dims :: "env \<Rightarrow> string \<Rightarrow> (nat \<times> nat) option" where
  "key_dims e key = (case s3_get e key of Inl _ \<Rightarrow> None | Inr b \<Rightarrow> buffer_dims e b)"

definition image_dims :: "env \<Rightarrow> request \<Rightarrow> (nat \<times> nat) option" where
  "image_dims e req = (case imageKey req of None \<Rightarrow> None | Some key \<Rightarrow> key_dims e key)"

text \<open>
  A call to \<open>sharp\<close> carries escaped markup when its SVG, if it has one, is the template
  with the numbers of that path and, in both holes for the text, the trimmed product name
  after \<open>escapeXml\<close>.
\<close>

definition markup_escaped :: "string option \<Rightarrow> (nat \<times> nat) option \<Rightarrow> call \<Rightarrow> bool" where
  "markup_escaped pn dims c =
     (case c of
        RenderFrame g ov p \<Rightarrow>
          (case ov of
             None \<Rightarrow> True
           | Some svg \<Rightarrow>
               (case pn of
                  None \<Rightarrow> False
                | Some s \<Rightarrow>
                    svg = svg_before ''1280'' ''720'' (dec (nat (zoom_fontSize g))) @
                          escapeXml (trim s) @ svg_between @ escapeXml (trim s) @ svg_after))
      | CompositeSlide svg p \<Rightarrow>
          (case pn of
             None \<Rightarrow> False
           | Some s \<Rightarrow>
               (case dims of
                  None \<Rightarrow> False
                | Some (w, h) \<Rightarrow>
                    svg = svg_before (dec w) (dec h) (dec (nat (slide_fontSize w))) @
                          escapeXml (trim s) @ svg_between @ escapeXml (trim s) @ svg_after))
      | _ \<Rightarrow> True)"

text \<open>
  Compositing the slide succeeds when \<open>sharp\<close> reads the metadata of the image and writes
  the composite.
\<close>

definition composite_ok :: "env \<Rightarrow> request \<Rightarrow> bool" where
  "composite_ok e req = (image_dims e req \<noteq> None \<and> toFile_error e (withTextPath e) = None)"

text \<open>
  A call follows the decision \<open>st\<close> about the text when: a frame of the zoom has an
  overlay exactly when \<open>st\<close> holds; the slide is composited only when \<open>st\<close> holds; and
  the encoder of the slide (the one that gets a filter) reads \<open>slideInput\<close>.
\<close>

definition follows_decision :: "bool \<Rightarrow> string \<Rightarrow> call \<Rightarrow> bool" where
  "follows_decision st slideInput c =
     (case c of
        RenderFrame g ov p \<Rightarrow> (ov \<noteq> None) = st
      | CompositeSlide svg p \<Rightarrow> st
      | Ffmpeg input audio filters out \<Rightarrow>
          (case filters of None \<Rightarrow> True | Some f \<Rightarrow> input = slideInput)
      | _ \<Rightarrow> True)"

text \<open>What the encoder was given to read, for each call to it.\<close>

definition encoder_inputs :: "call list \<Rightarrow> string list" where
  "encoder_inputs cs =
     concat (map (\<lambda>c. case c of Ffmpeg input audio filters out \<Rightarrow> [input] | _ \<Rightarrow> []) cs)"

section \<open>Notions for the proofs about paths\<close>

text \<open>A name that \<open>path.join\<close> appends as it is: one segment, not \<open>.\<close> and not \<open>..\<close>.\<close>

definition plain_name :: "string \<Rightarrow> bool" where
  "plain_name x = (x \<noteq> [] \<and> CHR ''/'' \<notin> set x \<and> x \<noteq> ''.'' \<and> x \<noteq> ''..'')"

text \<open>What \<open>path.join\<close> puts before a plain name that follows the directory \<open>d\<close>.\<close>

definition dir_part :: "string \<Rightarrow> string" where
  "dir_part d =
     (if d = [] then []
      else (if hd d = CHR ''/'' then ''/'' else []) @
           (let N = normalizeString (hd d \<noteq> CHR ''/'') [] (split_slash d)
            in if N = [] then [] else join_slash N @ ''/''))"

text \<open>
  The segments that \<open>normalizeString\<close> keeps: none is empty, \<open>.\<close> or has a slash, and
  \<open>..\<close> comes only at the front, and only above the start of a relative path.
\<close>

definition kept :: "bool \<Rightarrow> string list \<Rightarrow> bool" where
  "kept ab M =
     ((\<forall>s\<in>set M. s \<noteq> [] \<and> s \<noteq> ''.'' \<and> CHR ''/'' \<notin> set s) \<and>
      successively (\<lambda>u v. v = ''..'' \<longrightarrow> u = ''..'') M \<and>
      (\<not> ab \<longrightarrow> ''..'' \<notin> set M))"

section \<open>The formulas of the specification\<close>

text \<open>
  The words of the specification, to compare the code with. Escaping in one pass: each of
  the five metacharacters becomes its entity, every other character stays.
\<close>

definition escape_char :: "char \<Rightarrow> string" where
  "escape_char c =
     (if c = CHR ''&'' then ''&amp;''
      else if c = CHR ''<'' then ''&lt;''
      else if c = CHR ''>'' then ''&gt;''
      else if c = CHR 0x22 then ''&quot;''
      else if c = CHR 0x27 then ''&apos;''
      else [c])"

text \<open>
  Markup text is safe when it has none of \<open><\<close>, \<open>>\<close>, quotation mark and apostrophe, and
  every ampersand in it starts one of the five entities.
\<close>

definition starts_entity :: "string \<Rightarrow> bool" where
  "starts_entity s =
     (prefix ''amp;'' s \<or> prefix ''lt;'' s \<or> prefix ''gt;'' s \<or> prefix ''quot;'' s \<or> prefix ''apos;'' s)"

primrec xml_safe :: "string \<Rightarrow> bool" where
  "xml_safe [] = True"
| "xml_safe (c # cs) =
     ((if c = CHR ''&'' then starts_entity cs
       else c \<noteq> CHR ''<'' \<and> c \<noteq> CHR ''>'' \<and> c \<noteq> CHR 0x22 \<and> c \<noteq> CHR 0x27) \<and>
      xml_safe cs)"

text \<open>
  The font size the specification gives for a canvas of \<open>canvasW\<close> by \<open>canvasH\<close> pixels.
\<close>

definition spec_fontSize :: "real \<Rightarrow> real \<Rightarrow> real" where
  "spec_fontSize canvasW canvasH = max 28 (min canvasW canvasH / 24)"

section \<open>The easing function\<close>

lemma easeInOutSine_mono:
  assumes "0 \<le> s" and "s \<le> t" and "t \<le> 1"
  shows "easeInOutSine s \<le> easeInOutSine t"
proof -
  have "0 \<le> pi * s"
    using assms by simp
  moreover have "pi * s \<le> pi * t"
    using assms by (simp add: mult_left_mono)
  moreover have "pi * t \<le> pi"
    using assms by (simp add: mult_left_le)
  ultimately have "cos (pi * t) \<le> cos (pi * s)"
    by (rule cos_monotone_0_pi_le)
  then show ?thesis
    unfolding easeInOutSine_def by simp
qed

section \<open>The scale factor of the zoom\<close>

lemma frame_t_range:
  assumes "1 < N" and "i < N"
  shows "0 \<le> frame_t N i \<and> frame_t N i \<le> 1"
proof -
  have "real i \<le> real N - 1"
    using assms by linarith
  moreover have "0 < real N - 1"
    using assms by simp
  ultimately show ?thesis
    using assms by (simp add: frame_t_def)
qed

lemma frame_t_mono:
  assumes "1 < N" and "i \<le> j"
  shows "frame_t N i \<le> frame_t N j"
proof -
  have "0 < real N - 1"
    using assms by simp
  then show ?thesis
    using assms by (simp add: frame_t_def divide_right_mono)
qed

text \<open>
  Claim C2. In the zoom style, with more than one frame, the scale factor of every frame
  \<open>i < N\<close>, which is \<open>max (1 + 0.6 * ease (i / (N - 1))) minFactor\<close> with
  \<open>minFactor = max (1280 / iw) (720 / ih)\<close>, is at least \<open>minFactor\<close>, and it does not
  decrease from a frame to a later one.
\<close>

theorem frame_factor_floor_and_mono:
  assumes "1 < N" and "i \<le> j" and "j < N"
  shows "frame_factor iw ih N i =
           max (1 + 6 / 10 * easeInOutSine (real i / (real N - 1)))
               (max (1280 / real iw) (720 / real ih)) \<and>
         minFactor iw ih \<le> frame_factor iw ih N i \<and>
         frame_factor iw ih N i \<le> frame_factor iw ih N j"
proof -
  have formula: "frame_factor iw ih N i =
      max (1 + 6 / 10 * easeInOutSine (real i / (real N - 1)))
          (max (1280 / real iw) (720 / real ih))"
    using assms by (simp add: frame_factor_def frame_t_def minFactor_def zoomFactor_def)
  have floor: "minFactor iw ih \<le> frame_factor iw ih N i"
    by (simp add: frame_factor_def)
  have "0 \<le> frame_t N i"
    using frame_t_range [of N i] assms by simp
  moreover have "frame_t N i \<le> frame_t N j"
    using frame_t_mono assms by simp
  moreover have "frame_t N j \<le> 1"
    using frame_t_range [of N j] assms by simp
  ultimately have "easeInOutSine (frame_t N i) \<le> easeInOutSine (frame_t N j)"
    by (rule easeInOutSine_mono)
  then have "1 + zoomFactor * easeInOutSine (frame_t N i)
           \<le> 1 + zoomFactor * easeInOutSine (frame_t N j)"
    by (simp add: zoomFactor_def)
  then have mono: "frame_factor iw ih N i \<le> frame_factor iw ih N j"
    unfolding frame_factor_def by (rule max.mono) simp
  show ?thesis
    using formula floor mono by blast
qed

theorem frame_factor_floor_and_mono_witness:
  "(1::nat) < 2 \<and> (0::nat) \<le> 1 \<and> (1::nat) < 2 \<and>
   frame_factor 1280 720 2 0 = 1 \<and>
   frame_factor 1280 720 2 1 = 16 / 10 \<and>
   minFactor 1280 720 \<le> frame_factor 1280 720 2 0 \<and>
   frame_factor 1280 720 2 0 \<le> frame_factor 1280 720 2 1"
proof -
  have "frame_factor 1280 720 2 0 = 1"
    by (simp add: frame_factor_def frame_t_def minFactor_def zoomFactor_def easeInOutSine_def)
  moreover have "frame_factor 1280 720 2 1 = 16 / 10"
    by (simp add: frame_factor_def frame_t_def minFactor_def zoomFactor_def easeInOutSine_def)
  ultimately show ?thesis
    using frame_factor_floor_and_mono [of 2 0 1 1280 720] by simp
qed

section \<open>The crop window of the zoom\<close>

text \<open>
  One axis of the window: the image scaled to \<open>x\<close> pixels (before rounding) and a canvas
  of \<open>c\<close> pixels.
\<close>

lemma crop_axis_in_bounds:
  fixes x :: real and c :: int
  assumes "0 \<le> c"
  shows "max 0 (js_round ((x - real_of_int c) / 2)) + min c (js_round x) \<le> js_round x"
proof (cases "js_round ((x - real_of_int c) / 2) \<le> 0")
  case True
  then show ?thesis by simp
next
  case False
  then have "1 \<le> \<lfloor>(x - real_of_int c) / 2 + 1 / 2\<rfloor>"
    by (simp add: js_round_def)
  then have "1 \<le> (x - real_of_int c) / 2 + 1 / 2"
    by linarith
  then have big: "real_of_int c \<le> x"
    by argo
  have "js_round ((x - real_of_int c) / 2) + c = \<lfloor>(x - real_of_int c) / 2 + 1 / 2 + real_of_int c\<rfloor>"
    by (simp add: js_round_def)
  also have "\<dots> \<le> \<lfloor>x + 1 / 2\<rfloor>"
    using big by (intro floor_mono) (simp add: field_simps)
  finally have "js_round ((x - real_of_int c) / 2) + c \<le> js_round x"
    by (simp add: js_round_def)
  then show ?thesis
    using False by simp
qed

text \<open>
  Claim C1. In the zoom style, for every frame \<open>i < N\<close> of an image of at least one pixel
  each way, the crop window stays inside the scaled image: \<open>0 \<le> left\<close>, \<open>0 \<le> top\<close>,
  \<open>left + width \<le> scaledW\<close> and \<open>top + height \<le> scaledH\<close>, where
  \<open>scaledW = round (iw * factor)\<close>, \<open>scaledH = round (ih * factor)\<close>,
  \<open>left = max 0 (round ((iw * factor - 1280) / 2))\<close>,
  \<open>top = max 0 (round ((ih * factor - 720) / 2))\<close>, \<open>width = min 1280 scaledW\<close> and
  \<open>height = min 720 scaledH\<close>.
\<close>

theorem crop_window_in_bounds:
  assumes "1 \<le> iw" and "1 \<le> ih" and "i < N"
    and "g = frame_geometry iw ih N i" and "f = frame_factor iw ih N i"
  shows "scaledW g = js_round (real iw * f) \<and> scaledH g = js_round (real ih * f) \<and>
         left g = max 0 (js_round ((real iw * f - 1280) / 2)) \<and>
         top g = max 0 (js_round ((real ih * f - 720) / 2)) \<and>
         width g = min 1280 (scaledW g) \<and> height g = min 720 (scaledH g) \<and>
         0 \<le> left g \<and> 0 \<le> top g \<and>
         left g + width g \<le> scaledW g \<and> top g + height g \<le> scaledH g"
proof -
  have fields: "scaledW g = js_round (real iw * f)" "scaledH g = js_round (real ih * f)"
      "left g = max 0 (js_round ((real iw * f - 1280) / 2))"
      "top g = max 0 (js_round ((real ih * f - 720) / 2))"
      "width g = min 1280 (scaledW g)" "height g = min 720 (scaledH g)"
    using assms(4,5) by (simp_all add: frame_geometry_def Let_def)
  have "left g + width g \<le> scaledW g"
    using crop_axis_in_bounds [of 1280 "real iw * f"] fields by simp
  moreover have "top g + height g \<le> scaledH g"
    using crop_axis_in_bounds [of 720 "real ih * f"] fields by simp
  moreover have "0 \<le> left g" and "0 \<le> top g"
    using fields by simp_all
  ultimately show ?thesis
    using fields by simp
qed

theorem crop_window_in_bounds_witness:
  "(1::nat) \<le> 1280 \<and> (1::nat) \<le> 720 \<and> (1::nat) < 2 \<and>
   frame_geometry 1280 720 2 1 =
     \<lparr> scaledW = 2048, scaledH = 1152, left = 384, top = 216, width = 1280, height = 720 \<rparr> \<and>
   left (frame_geometry 1280 720 2 1) + width (frame_geometry 1280 720 2 1)
     \<le> scaledW (frame_geometry 1280 720 2 1) \<and>
   top (frame_geometry 1280 720 2 1) + height (frame_geometry 1280 720 2 1)
     \<le> scaledH (frame_geometry 1280 720 2 1)"
proof -
  have f: "frame_factor 1280 720 2 (Suc 0) = 16 / 10"
    by (simp add: frame_factor_def frame_t_def minFactor_def zoomFactor_def easeInOutSine_def)
  have "frame_geometry 1280 720 2 1 =
     \<lparr> scaledW = 2048, scaledH = 1152, left = 384, top = 216, width = 1280, height = 720 \<rparr>"
    by (simp add: frame_geometry_def Let_def f js_round_def)
  then show ?thesis
    using crop_window_in_bounds [of 1280 720 1 2 "frame_geometry 1280 720 2 1" "frame_factor 1280 720 2 1"]
    by simp
qed

section \<open>Escaping the overlay text\<close>

lemma replace_all_append:
  "replace_all c r (xs @ ys) = replace_all c r xs @ replace_all c r ys"
  by (induction xs) simp_all

lemma escapeXml_Nil: "escapeXml [] = []"
  by (simp add: escapeXml_def)

lemma escapeXml_Cons: "escapeXml (c # cs) = escape_char c @ escapeXml cs"
  by (simp add: escapeXml_def escape_char_def replace_all_append)

lemma escapeXml_one_pass: "escapeXml s = concat (map escape_char s)"
  by (induction s) (simp_all add: escapeXml_Nil escapeXml_Cons)

lemma xml_safe_escape_char: "xml_safe (escape_char c @ rest) = xml_safe rest"
  by (simp add: escape_char_def starts_entity_def)

lemma xml_safe_escapeXml: "xml_safe (escapeXml s)"
  by (induction s) (simp_all add: escapeXml_Nil escapeXml_Cons xml_safe_escape_char)

lemma set_escape_char:
  "CHR ''<'' \<notin> set (escape_char c) \<and> CHR ''>'' \<notin> set (escape_char c) \<and>
   CHR 0x22 \<notin> set (escape_char c) \<and> CHR 0x27 \<notin> set (escape_char c)"
  by (simp add: escape_char_def)

lemma no_raw_escapeXml:
  "CHR ''<'' \<notin> set (escapeXml s) \<and> CHR ''>'' \<notin> set (escapeXml s) \<and>
   CHR 0x22 \<notin> set (escapeXml s) \<and> CHR 0x27 \<notin> set (escapeXml s)"
  by (induction s) (simp_all add: escapeXml_Nil escapeXml_Cons set_escape_char)

text \<open>The text of the specification's own test.\<close>

lemma escapeXml_example: "escapeXml ''A&B<Test>'' = ''A&amp;B&lt;Test&gt;''"
  by (simp add: escapeXml_def)

section \<open>The font size of the overlay\<close>

lemma js_round_div24: "js_round (real_of_int x / 24) = (x + 12) div 24"
proof -
  have "real_of_int x / 24 + 1 / 2 = real_of_int (x + 12) / real_of_int 24"
    by simp
  then show ?thesis
    unfolding js_round_def by (simp only: floor_divide_of_int_eq)
qed

lemma js_round_mono: "x \<le> y \<Longrightarrow> js_round x \<le> js_round y"
  by (simp add: js_round_def floor_mono)

lemma js_round_max: "js_round (max x y) = max (js_round x) (js_round y)"
proof (cases "x \<le> y")
  case True
  then show ?thesis
    using js_round_mono [of x y] by (simp add: max_def)
next
  case False
  then have "y \<le> x" by simp
  then show ?thesis
    using js_round_mono [of y x] by (simp add: max_def)
qed

lemma js_round_28: "js_round 28 = 28"
  by (simp add: js_round_def)

lemma last_frame_factor: "frame_factor 1280 720 150 149 = 16 / 10"
  by (simp add: frame_factor_def frame_t_def minFactor_def zoomFactor_def easeInOutSine_def)

text \<open>
  The claim as the specification words it fails in both paths. The slide path divides the
  width of the image, not the smaller of its two sides: an image of 1920 by 1080 pixels
  gets 80, where the formula gives 45. The zoom path takes the sides of the scaled
  image, not of the canvas of 1280 by 720 pixels that the SVG declares: the last of the
  150 frames of an image of 1280 by 720 pixels gets 48, where the formula gives 30.
\<close>

theorem fontSize_canvas_counterexample:
  "real_of_int (slide_fontSize 1920) \<noteq> spec_fontSize 1920 1080 \<and>
   real_of_int (zoom_fontSize (frame_geometry 1280 720 150 149)) \<noteq> spec_fontSize 1280 720"
proof -
  have "slide_fontSize 1920 = 80" and "spec_fontSize 1920 1080 = 45"
    by (simp_all add: slide_fontSize_def spec_fontSize_def js_round_def)
  moreover have "zoom_fontSize (frame_geometry 1280 720 150 149) = 48"
    by (simp add: zoom_fontSize_def frame_geometry_def Let_def last_frame_factor js_round_def)
  moreover have "spec_fontSize 1280 720 = 30"
    by (simp add: spec_fontSize_def)
  ultimately show ?thesis
    by simp
qed

text \<open>
  Claim C7, amended. The font size is \<open>Math.round\<close> of the specification's formula
  \<open>max 28 (min a b / 24)\<close>, where in the zoom path \<open>a\<close> and \<open>b\<close> are the width and the
  height of the scaled image of the frame, and in the slide path both are the width of
  the image. In integers: \<open>max 28 ((m + 12) div 24)\<close>, \<open>m\<close> being the smaller side of
  the scaled image, or the width of the image.
\<close>

theorem fontSize_as_computed:
  "zoom_fontSize g = js_round (spec_fontSize (real_of_int (scaledW g)) (real_of_int (scaledH g))) \<and>
   zoom_fontSize g = max 28 ((min (scaledW g) (scaledH g) + 12) div 24) \<and>
   slide_fontSize w = js_round (spec_fontSize (real w) (real w)) \<and>
   slide_fontSize w = max 28 ((int w + 12) div 24)"
proof -
  have "zoom_fontSize g = js_round (spec_fontSize (real_of_int (scaledW g)) (real_of_int (scaledH g)))"
    by (simp add: zoom_fontSize_def spec_fontSize_def js_round_max js_round_28)
  moreover have "zoom_fontSize g = max 28 ((min (scaledW g) (scaledH g) + 12) div 24)"
    by (simp only: zoom_fontSize_def js_round_div24)
  moreover have "slide_fontSize w = js_round (spec_fontSize (real w) (real w))"
    by (simp add: slide_fontSize_def spec_fontSize_def js_round_max js_round_28)
  moreover have "slide_fontSize w = max 28 ((int w + 12) div 24)"
    using js_round_div24 [of "int w"] by (simp add: slide_fontSize_def)
  ultimately show ?thesis
    by blast
qed

section \<open>The names of the temporary paths\<close>

lemma digit_code: assumes "d < 10" shows "(of_char (digit d) :: nat) = 48 + d"
proof -
  from assms have "d = 0 \<or> d = 1 \<or> d = 2 \<or> d = 3 \<or> d = 4 \<or> d = 5 \<or> d = 6 \<or> d = 7 \<or> d = 8 \<or> d = 9"
    by arith
  then show ?thesis
    by (auto simp: digit_def)
qed

lemma digit_inj:
  assumes "a < 10" and "b < 10" and "digit a = digit b"
  shows "a = b"
proof -
  have "(of_char (digit a) :: nat) = of_char (digit b)"
    by (simp only: assms(3))
  then have "48 + a = 48 + b"
    by (simp only: digit_code [OF assms(1)] digit_code [OF assms(2)])
  then show ?thesis
    by simp
qed

lemma digit_not_slash:
  assumes "d < 10"
  shows "digit d \<noteq> CHR ''/''"
proof
  assume "digit d = CHR ''/''"
  then have "(of_char (digit d) :: nat) = of_char CHR ''/''"
    by (simp only:)
  then have "48 + d = 47"
    by (simp add: digit_code [OF assms])
  then show False
    by simp
qed

lemma dec_small: "n < 10 \<Longrightarrow> dec n = [digit n]"
  by (subst dec.simps) simp

lemma dec_big: "\<not> n < 10 \<Longrightarrow> dec n = dec (n div 10) @ [digit (n mod 10)]"
  by (subst dec.simps) simp

lemma dec_not_Nil: "dec n \<noteq> []"
  by (cases "n < 10") (simp_all add: dec_small dec_big)

lemma dec_no_slash: "CHR ''/'' \<notin> set (dec n)"
proof (induction n rule: dec.induct)
  case (1 n)
  show ?case
  proof (cases "n < 10")
    case True
    then show ?thesis
      using digit_not_slash [of n] by (simp add: dec_small)
  next
    case False
    then show ?thesis
      using "1.IH" digit_not_slash [of "n mod 10"] by (simp add: dec_big)
  qed
qed

lemma dec_inj: "dec m = dec n \<Longrightarrow> m = n"
proof (induction m arbitrary: n rule: dec.induct)
  case (1 m)
  show ?case
  proof (cases "m < 10")
    case m: True
    show ?thesis
    proof (cases "n < 10")
      case True
      then show ?thesis
        using m "1.prems" digit_inj by (simp add: dec_small)
    next
      case False
      then show ?thesis
        using m "1.prems" dec_not_Nil [of "n div 10"] by (simp add: dec_small dec_big)
    qed
  next
    case m: False
    show ?thesis
    proof (cases "n < 10")
      case True
      then show ?thesis
        using m "1.prems" dec_not_Nil [of "m div 10"] by (simp add: dec_small dec_big)
    next
      case False
      then have "dec (m div 10) = dec (n div 10)" and "digit (m mod 10) = digit (n mod 10)"
        using m "1.prems" by (simp_all add: dec_big)
      then have "m div 10 = n div 10" and "m mod 10 = n mod 10"
        using "1.IH" [OF m] digit_inj [of "m mod 10" "n mod 10"] by simp_all
      then show ?thesis
        by (metis div_mult_mod_eq)
    qed
  qed
qed

lemma split_at_slash:
  assumes "CHR ''/'' \<notin> set xs" and "CHR ''/'' \<notin> set ys"
    and "xs @ CHR ''/'' # r = ys @ CHR ''/'' # r'"
  shows "xs = ys"
proof -
  have "takeWhile (\<lambda>c. c \<noteq> CHR ''/'') (xs @ CHR ''/'' # r) = xs"
    using assms(1) by (auto simp: takeWhile_tail)
  moreover have "takeWhile (\<lambda>c. c \<noteq> CHR ''/'') (ys @ CHR ''/'' # r') = ys"
    using assms(2) by (auto simp: takeWhile_tail)
  ultimately show ?thesis
    using assms(3) by simp
qed


lemma split_slash_not_Nil: "split_slash s \<noteq> []"
  by (induction s) (auto split: list.splits)

lemma split_slash_plain: "CHR ''/'' \<notin> set x \<Longrightarrow> split_slash x = [x]"
  by (induction x) auto

lemma split_slash_append: "split_slash (a @ CHR ''/'' # b) = split_slash a @ split_slash b"
  by (induction a) (auto split: list.splits simp: split_slash_not_Nil)

lemma split_slash_segments: "s \<in> set (split_slash p) \<Longrightarrow> CHR ''/'' \<notin> set s"
  by (induction p arbitrary: s) (auto split: list.splits if_splits)

lemma normalizeString_append:
  "normalizeString a res (L @ M) = normalizeString a (normalizeString a res L) M"
  by (induction L arbitrary: res) simp_all

lemma join_slash_snoc:
  "join_slash (L @ [x]) = (if L = [] then x else join_slash L @ ''/'' @ x)"
  by (induction L) auto

lemma join_slash_Nil_iff: "(\<forall>s\<in>set L. s \<noteq> []) \<Longrightarrow> (join_slash L = []) = (L = [])"
  by (induction L) auto

lemma no_slash_ends:
  "x \<noteq> [] \<Longrightarrow> CHR ''/'' \<notin> set x \<Longrightarrow> hd x \<noteq> CHR ''/'' \<and> last x \<noteq> CHR ''/''"
  by (metis hd_in_set last_in_set)

text \<open>A plain name is appended as it is, whatever the directory.\<close>

lemma path_join_plain:
  assumes "plain_name x"
  shows "path_join [d, x] = dir_part d @ x"
proof (cases "d = []")
  case True
  have "split_slash x = [x]" and "hd x \<noteq> CHR ''/''" and "last x \<noteq> CHR ''/''"
    using assms no_slash_ends [of x] by (simp_all add: plain_name_def split_slash_plain)
  then show ?thesis
    using True assms by (simp add: path_join_def path_normalize_def dir_part_def plain_name_def)
next
  case False
  let ?a = "hd d \<noteq> CHR ''/''"
  let ?N = "normalizeString ?a [] (split_slash d)"
  have x: "x \<noteq> []" "CHR ''/'' \<notin> set x" "x \<noteq> ''.''" "x \<noteq> ''..''"
    using assms by (simp_all add: plain_name_def)
  have l: "last (d @ CHR ''/'' # x) \<noteq> CHR ''/''"
    using x no_slash_ends [of x] by simp
  have h: "hd (d @ CHR ''/'' # x) = hd d"
    using False by simp
  have "split_slash (d @ CHR ''/'' # x) = split_slash d @ [x]"
    using x by (simp add: split_slash_append split_slash_plain)
  then have n: "normalizeString ?a [] (split_slash (d @ CHR ''/'' # x)) = ?N @ [x]"
    using x by (simp add: normalizeString_append)
  have b: "join_slash (?N @ [x]) \<noteq> []"
    using x by (simp add: join_slash_snoc)
  have "path_join [d, x] = path_normalize (d @ CHR ''/'' # x)"
    using False x by (simp add: path_join_def)
  also have "\<dots> = (if hd d = CHR ''/'' then ''/'' else []) @ join_slash (?N @ [x])"
    using l h n b by (simp add: path_normalize_def Let_def)
  also have "\<dots> = dir_part d @ x"
    using False by (simp add: dir_part_def join_slash_snoc Let_def)
  finally show ?thesis .
qed

lemma kept_Nil: "kept a []"
  by (simp add: kept_def)

lemma kept_snoc:
  "kept a (M @ [s]) =
     (kept a M \<and> s \<noteq> [] \<and> s \<noteq> ''.'' \<and> CHR ''/'' \<notin> set s \<and>
      (s = ''..'' \<longrightarrow> a \<and> (M = [] \<or> last M = ''..'')))"
  by (auto simp: kept_def successively_append_iff)

lemma kept_single:
  "kept a [s] = (s \<noteq> [] \<and> s \<noteq> ''.'' \<and> CHR ''/'' \<notin> set s \<and> (s = ''..'' \<longrightarrow> a))"
  by (auto simp: kept_def)

lemma kept_butlast: "kept a M \<Longrightarrow> M \<noteq> [] \<Longrightarrow> kept a (butlast M)"
  using kept_snoc [of a "butlast M" "last M"] by simp

lemma kept_step:
  assumes "kept a res" and "CHR ''/'' \<notin> set s"
  shows "kept a (normalizeString a res [s])"
  using assms by (auto simp: kept_snoc kept_single kept_butlast)

lemma kept_normalizeString:
  assumes "kept a res" and "\<forall>s\<in>set L. CHR ''/'' \<notin> set s"
  shows "kept a (normalizeString a res L)"
  using assms
proof (induction L arbitrary: res)
  case Nil
  then show ?case by simp
next
  case (Cons s L)
  have "kept a (normalizeString a res [s])"
    using Cons.prems by (intro kept_step) simp_all
  then have "kept a (normalizeString a (normalizeString a res [s]) L)"
    using Cons.prems by (intro Cons.IH) simp_all
  then show ?case
    using normalizeString_append [of a res "[s]" L] by simp
qed

text \<open>Normalising what has been normalised changes nothing.\<close>

lemma kept_stable: "kept a M \<Longrightarrow> normalizeString a [] M = M"
proof (induction M rule: rev_induct)
  case Nil
  then show ?case by simp
next
  case (snoc s M)
  then have "normalizeString a [] M = M"
    by (simp add: kept_snoc)
  then show ?case
    using snoc.prems by (auto simp: normalizeString_append kept_snoc)
qed

lemma split_join_slash:
  assumes "M \<noteq> []" and "\<forall>s\<in>set M. CHR ''/'' \<notin> set s"
  shows "split_slash (join_slash M) = M"
  using assms
proof (induction M)
  case Nil
  then show ?case by simp
next
  case (Cons s M)
  then show ?case
    by (cases "M = []") (simp_all add: split_slash_plain split_slash_append)
qed

lemma hd_join_slash: "M \<noteq> [] \<Longrightarrow> hd M \<noteq> [] \<Longrightarrow> hd (join_slash M) = hd (hd M)"
  by (cases M) auto

lemma dir_part_eq:
  "dir_part d =
     (if d \<noteq> [] \<and> hd d = CHR ''/'' then ''/'' else []) @
     (let N = (if d = [] then [] else normalizeString (hd d \<noteq> CHR ''/'') [] (split_slash d))
      in if N = [] then [] else join_slash N @ ''/'')"
  by (simp add: dir_part_def Let_def)

lemma dir_part_of_kept:
  assumes "kept (\<not> ab) M" and "M \<noteq> []"
  shows "dir_part ((if ab then ''/'' else []) @ join_slash M) =
           (if ab then ''/'' else []) @ join_slash M @ ''/''"
proof -
  have segs: "\<forall>s\<in>set M. CHR ''/'' \<notin> set s" and nonempty: "\<forall>s\<in>set M. s \<noteq> []"
    using assms(1) by (simp_all add: kept_def)
  have jne: "join_slash M \<noteq> []"
    using nonempty assms(2) by (simp add: join_slash_Nil_iff)
  have "hd M \<in> set M"
    using assms(2) by simp
  then have "hd M \<noteq> []" and "CHR ''/'' \<notin> set (hd M)"
    using segs nonempty by blast+
  then have hdj: "hd (join_slash M) \<noteq> CHR ''/''"
    using hd_join_slash [OF assms(2)] no_slash_ends [of "hd M"] by simp
  have sp: "split_slash (join_slash M) = M"
    using assms(2) segs by (rule split_join_slash)
  have st: "normalizeString (\<not> ab) [] M = M"
    using assms(1) by (rule kept_stable)
  show ?thesis
  proof (cases ab)
    case True
    have "split_slash (CHR ''/'' # join_slash M) = [] # M"
      using sp by simp
    then have "normalizeString False [] (split_slash (CHR ''/'' # join_slash M)) = M"
      using st True by simp
    then show ?thesis
      using True assms(2) by (simp add: dir_part_def)
  next
    case False
    have "normalizeString True [] (split_slash (join_slash M)) = M"
      using st sp False by simp
    then show ?thesis
      using False assms(2) jne hdj by (simp add: dir_part_def)
  qed
qed

lemma dir_part_nested:
  assumes "plain_name y"
  shows "dir_part (dir_part d @ y) = dir_part d @ y @ ''/''"
proof -
  define ab where "ab = (d \<noteq> [] \<and> hd d = CHR ''/'')"
  define N where "N = (if d = [] then [] else normalizeString (\<not> ab) [] (split_slash d))"
  have y: "y \<noteq> []" "CHR ''/'' \<notin> set y" "y \<noteq> ''.''" "y \<noteq> ''..''"
    using assms by (simp_all add: plain_name_def)
  have "kept (\<not> ab) (normalizeString (\<not> ab) [] (split_slash d))"
    using split_slash_segments [of _ d] by (intro kept_normalizeString kept_Nil) blast
  then have "kept (\<not> ab) N"
    by (simp add: N_def kept_Nil)
  then have keptM: "kept (\<not> ab) (N @ [y])"
    using y by (simp add: kept_snoc)
  have N: "N = (if d = [] then [] else normalizeString (hd d \<noteq> CHR ''/'') [] (split_slash d))"
    by (auto simp: N_def ab_def)
  have p: "dir_part d @ y = (if ab then ''/'' else []) @ join_slash (N @ [y])"
    unfolding dir_part_eq N [symmetric] ab_def [symmetric]
    by (simp add: join_slash_snoc Let_def)
  have "dir_part ((if ab then ''/'' else []) @ join_slash (N @ [y])) =
           (if ab then ''/'' else []) @ join_slash (N @ [y]) @ ''/''"
    using keptM by (rule dir_part_of_kept) simp
  then show ?thesis
    unfolding p [symmetric] using p by simp
qed

text \<open>A plain name joined to a directory that was itself joined from a plain name.\<close>

lemma path_join_nested:
  assumes "plain_name y" and "plain_name x"
  shows "path_join [path_join [d, y], x] = path_join [d, y] @ ''/'' @ x"
  using assms by (simp add: path_join_plain dir_part_nested)

lemma padStart_no_slash: "CHR ''/'' \<notin> set s \<Longrightarrow> CHR ''/'' \<notin> set (padStart 4 CHR ''0'' s)"
  by (simp add: padStart_def)

lemma plain_names:
  "plain_name (''input-'' @ dec n @ ''.jpg'')"
  "plain_name (''output-'' @ dec n @ ''.mp4'')"
  "plain_name (''frames-'' @ dec n)"
  "plain_name (''slide-input-'' @ dec n @ ''.png'')"
  "plain_name (''frame-'' @ padStart 4 CHR ''0'' (dec i) @ ''.png'')"
  "plain_name ''frame-%04d.png''"
  using dec_no_slash padStart_no_slash [OF dec_no_slash] by (simp_all add: plain_name_def)

lemma paths_unfolded:
  "inputImagePath e = dir_part (tmpdir e) @ ''input-'' @ dec (now_input e) @ ''.jpg''"
  "outputVideoPath e = dir_part (tmpdir e) @ ''output-'' @ dec (now_output e) @ ''.mp4''"
  "framesDir e = dir_part (tmpdir e) @ ''frames-'' @ dec (now_frames e)"
  "withTextPath e = dir_part (tmpdir e) @ ''slide-input-'' @ dec (now_slide e) @ ''.png''"
  by (simp_all only: inputImagePath_def outputVideoPath_def framesDir_def withTextPath_def
      path_join_plain [OF plain_names(1)] path_join_plain [OF plain_names(2)]
      path_join_plain [OF plain_names(3)] path_join_plain [OF plain_names(4)])

lemma frame_path_framesDir:
  "frame_path (framesDir e) i =
     dir_part (tmpdir e) @ ''frames-'' @ dec (now_frames e) @ ''/frame-'' @
     padStart 4 CHR ''0'' (dec i) @ ''.png''"
proof -
  have "frame_path (framesDir e) i =
      path_join [tmpdir e, ''frames-'' @ dec (now_frames e)] @ ''/'' @
      (''frame-'' @ padStart 4 CHR ''0'' (dec i) @ ''.png'')"
    unfolding frame_path_def framesDir_def
    by (rule path_join_nested [OF plain_names(3) plain_names(5)])
  also have "path_join [tmpdir e, ''frames-'' @ dec (now_frames e)] =
      dir_part (tmpdir e) @ ''frames-'' @ dec (now_frames e)"
    by (rule path_join_plain [OF plain_names(3)])
  finally show ?thesis
    by simp
qed

lemma prefix_frame_path: "prefix (framesDir e @ ''/'') (frame_path (framesDir e) i)"
  unfolding frame_path_framesDir by (simp add: paths_unfolded)

lemma same_kind_distinct:
  assumes "tmpdir e1 = tmpdir e2"
  shows "now_input e1 \<noteq> now_input e2 \<Longrightarrow> inputImagePath e1 \<noteq> inputImagePath e2"
    and "now_output e1 \<noteq> now_output e2 \<Longrightarrow> outputVideoPath e1 \<noteq> outputVideoPath e2"
    and "now_frames e1 \<noteq> now_frames e2 \<Longrightarrow> framesDir e1 \<noteq> framesDir e2"
    and "now_slide e1 \<noteq> now_slide e2 \<Longrightarrow> withTextPath e1 \<noteq> withTextPath e2"
  using assms dec_inj by (auto simp: paths_unfolded)

lemma other_kind_distinct:
  assumes "tmpdir e1 = tmpdir e2"
  shows "inputImagePath e1 \<noteq> outputVideoPath e2" "inputImagePath e1 \<noteq> framesDir e2"
    "inputImagePath e1 \<noteq> withTextPath e2" "outputVideoPath e1 \<noteq> framesDir e2"
    "outputVideoPath e1 \<noteq> withTextPath e2" "framesDir e1 \<noteq> withTextPath e2"
  using assms by (simp_all add: paths_unfolded)

lemma frame_path_not_temp:
  assumes "tmpdir e1 = tmpdir e2"
  shows "frame_path (framesDir e1) i \<noteq> inputImagePath e2"
    "frame_path (framesDir e1) i \<noteq> outputVideoPath e2"
    "frame_path (framesDir e1) i \<noteq> withTextPath e2"
  unfolding frame_path_framesDir using assms by (simp_all add: paths_unfolded)

lemma frame_path_not_framesDir:
  assumes "tmpdir e1 = tmpdir e2"
  shows "frame_path (framesDir e1) i \<noteq> framesDir e2"
proof
  assume "frame_path (framesDir e1) i = framesDir e2"
  then have "dec (now_frames e1) @ ''/frame-'' @ padStart 4 CHR ''0'' (dec i) @ ''.png'' = dec (now_frames e2)"
    unfolding frame_path_framesDir using assms by (simp add: paths_unfolded)
  then have "CHR ''/'' \<in> set (dec (now_frames e2))"
    by (metis in_set_conv_decomp append_Cons)
  then show False
    using dec_no_slash by simp
qed

lemma frame_paths_distinct:
  assumes "tmpdir e1 = tmpdir e2" and "now_frames e1 \<noteq> now_frames e2"
  shows "frame_path (framesDir e1) i \<noteq> frame_path (framesDir e2) j"
proof
  assume "frame_path (framesDir e1) i = frame_path (framesDir e2) j"
  then have "dec (now_frames e1) @ CHR ''/'' # (''frame-'' @ padStart 4 CHR ''0'' (dec i) @ ''.png'')
           = dec (now_frames e2) @ CHR ''/'' # (''frame-'' @ padStart 4 CHR ''0'' (dec j) @ ''.png'')"
    unfolding frame_path_framesDir using assms(1) by simp
  then have "dec (now_frames e1) = dec (now_frames e2)"
    by (rule split_at_slash [OF dec_no_slash dec_no_slash])
  then show False
    using assms(2) dec_inj by blast
qed

text \<open>
  The clock is the only thing that tells the paths of two runs apart: runs that share
  the temporary directory and read different clock values at each of the four places
  that name a path have no temporary path in common.
\<close>

lemma paths_distinct_when_clocks_differ:
  assumes "tmpdir e1 = tmpdir e2"
    and "now_input e1 \<noteq> now_input e2" and "now_output e1 \<noteq> now_output e2"
    and "now_frames e1 \<noteq> now_frames e2" and "now_slide e1 \<noteq> now_slide e2"
  shows "set (temp_paths e1) \<inter> set (temp_paths e2) = {} \<and>
         frame_path (framesDir e1) i \<notin> set (temp_paths e2) \<and>
         frame_path (framesDir e1) i \<noteq> frame_path (framesDir e2) j"
proof -
  have sym: "tmpdir e2 = tmpdir e1"
    using assms(1) by simp
  have "set (temp_paths e1) \<inter> set (temp_paths e2) = {}"
    using same_kind_distinct [OF assms(1)] assms(2-5)
      other_kind_distinct [OF assms(1)] other_kind_distinct [OF sym]
    by (simp add: temp_paths_def)
  moreover have "frame_path (framesDir e1) i \<notin> set (temp_paths e2)"
    using frame_path_not_temp [OF assms(1)] frame_path_not_framesDir [OF assms(1)]
    by (simp add: temp_paths_def)
  moreover have "frame_path (framesDir e1) i \<noteq> frame_path (framesDir e2) j"
    using assms(1,4) by (rule frame_paths_distinct)
  ultimately show ?thesis
    by blast
qed

section \<open>Running the handler on the examples\<close>

lemma dec_examples:
  "dec 1000 = ''1000''" "dec 1001 = ''1001''" "dec 1002 = ''1002''"
  "dec 1003 = ''1003''" "dec 1004 = ''1004''" "dec 1005 = ''1005''"
  "dec 1920 = ''1920''" "dec 1080 = ''1080''" "dec 80 = ''80''"
  by (simp_all add: dec.simps digit_def)

lemma slide_funky:
  "getTemplateById ''slide-funky'' =
     Some \<lparr> template_id = ''slide-funky'', template_name = ''Funky Slide'', style = Slide,
            musicFile = ''/musics/funky.mp3'', durationSeconds = 6 \<rparr>"
  by (simp add: getTemplateById_def templates_def)

lemma ffmpegPath_ok_env: "ffmpegPath ok_env = Some ''/app/node_modules/ffmpeg-static/ffmpeg''"
  by (simp add: ffmpegPath_def ok_env_def falsy_def)

lemma dir_part_tmp: "dir_part ''/tmp'' = ''/tmp/''"
  by (simp add: dir_part_def)

lemmas run_defs = generate_def slide_branch_def composite_slide_def andThen_def attempt_def ret_def
  getObjectBuffer_def writeFileSync_def ffmpeg_save_def readFileSync_def uploadToS3_def
  unlinkSync_def sharp_metadata_def sharp_toFile_def paths_unfolded dir_part_tmp video_key_def
  create_file_def log_call_def or_default_def

section \<open>No encoder\<close>

lemma ffmpegPath_None:
  assumes "\<forall>p. FFMPEG_PATH e = Some p \<longrightarrow> p = [] \<or> \<not> existsSync e p"
    and "\<forall>p. ffmpegStatic e = Some p \<longrightarrow> p = [] \<or> \<not> existsSync e p"
    and "which_ffmpeg e = None \<or> which_ffmpeg e = Some []"
  shows "ffmpegPath e = None"
  using assms by (auto simp: ffmpegPath_def falsy_def Let_def split: option.splits)

lemma handler_without_ffmpeg:
  assumes "ffmpegPath e = None"
  shows "snd (handler e req w) = w \<and> (\<forall>u. fst (handler e req w) \<noteq> Response 200 u)"
  using assms by (auto simp: handler_def falsy_def split: option.splits)

lemma valid_request_without_ffmpeg:
  assumes "ffmpegPath e = None" and "req_method req = ''POST''"
    and "imageKey req = Some key" and "key \<noteq> []"
    and "templateId req = Some tid" and "tid \<noteq> []" and "getTemplateById tid = Some t"
  shows "handler e req w = (Response 500 (ErrorBody no_ffmpeg), w)"
  using assms by (simp add: handler_def falsy_def)

text \<open>
  Claim C5. When the environment variable, the bundled binary and the search on PATH
  all fail to give an encoder, no path is resolved, and the handler answers without
  touching the world: no call to the object storage, no image processing, no file. It
  never answers 200; a request that passes the validation gets the error 500 that
  names the missing encoder.
\<close>

theorem encoder_unavailable_fails_fast:
  assumes "\<forall>p. FFMPEG_PATH e = Some p \<longrightarrow> p = [] \<or> \<not> existsSync e p"
    and "\<forall>p. ffmpegStatic e = Some p \<longrightarrow> p = [] \<or> \<not> existsSync e p"
    and "which_ffmpeg e = None \<or> which_ffmpeg e = Some []"
  shows "ffmpegPath e = None \<and>
         snd (handler e req w) = w \<and>
         (\<forall>u. fst (handler e req w) \<noteq> Response 200 u) \<and>
         (req_method req = ''POST'' \<and>
          (\<exists>key tid t. imageKey req = Some key \<and> key \<noteq> [] \<and> templateId req = Some tid \<and>
             tid \<noteq> [] \<and> getTemplateById tid = Some t) \<longrightarrow>
          handler e req w = (Response 500 (ErrorBody no_ffmpeg), w))"
proof -
  have none: "ffmpegPath e = None"
    using assms by (rule ffmpegPath_None)
  have "req_method req = ''POST'' \<and>
          (\<exists>key tid t. imageKey req = Some key \<and> key \<noteq> [] \<and> templateId req = Some tid \<and>
             tid \<noteq> [] \<and> getTemplateById tid = Some t) \<longrightarrow>
          handler e req w = (Response 500 (ErrorBody no_ffmpeg), w)"
    using valid_request_without_ffmpeg [OF none] by blast
  then show ?thesis
    using none handler_without_ffmpeg [OF none, of req w] by blast
qed

theorem encoder_unavailable_fails_fast_witness:
  "FFMPEG_PATH no_encoder_env = None \<and>
   ffmpegStatic no_encoder_env = Some ''/app/node_modules/ffmpeg-static/ffmpeg'' \<and>
   \<not> existsSync no_encoder_env ''/app/node_modules/ffmpeg-static/ffmpeg'' \<and>
   which_ffmpeg no_encoder_env = None \<and>
   ffmpegPath no_encoder_env = None \<and>
   handler no_encoder_env slide_request empty_world =
     (Response 500 (ErrorBody no_ffmpeg), empty_world)"
  using encoder_unavailable_fails_fast [of no_encoder_env slide_request empty_world]
  by (simp add: no_encoder_env_def ok_env_def slide_request_def slide_funky)

section \<open>Requests that are rejected, and requests that are not\<close>

lemma trim_Nil: "trim [] = []"
  by (simp add: trim_def)

lemma showText_iff:
  "showText it pn = (it \<noteq> Some False \<and> (\<exists>s. pn = Some s \<and> trim s \<noteq> []))"
  by (auto simp: showText_def trim_Nil split: option.splits)

lemma missing_params:
  assumes "req_method req = ''POST''" and "falsy (imageKey req) \<or> falsy (templateId req)"
  shows "handler e req w = (Response 400 (ErrorBody ''Missing params''), w)"
  using assms by (auto simp: handler_def falsy_def split: option.splits)

lemma invalid_template:
  assumes "req_method req = ''POST''" and "\<not> falsy (imageKey req)"
    and "templateId req = Some tid" and "tid \<noteq> []" and "getTemplateById tid = None"
  shows "handler e req w = (Response 400 (ErrorBody ''Invalid template''), w)"
  using assms by (auto simp: handler_def falsy_def split: option.splits)

lemma generate_showText_cong:
  assumes "showText it pn = showText it' pn"
  shows "generate e key t pn it = generate e key t pn it'"
  unfolding generate_def assms ..

lemma blank_name_not_rejected:
  assumes "\<forall>s. productName req = Some s \<longrightarrow> trim s = []"
  shows "\<not> showText (includeText req) (productName req) \<and>
         handler e req w = handler e (req\<lparr>includeText := Some False\<rparr>) w"
proof -
  have no: "\<not> showText (includeText req) (productName req)"
    using assms by (simp add: showText_iff)
  have "generate e key t (productName req) (includeText req)
      = generate e key t (productName req) (Some False)" for key t
    by (rule generate_showText_cong) (simp add: showText_iff assms)
  then have "handler e req w = handler e (req\<lparr>includeText := Some False\<rparr>) w"
    by (simp add: handler_def split: option.splits)
  with no show ?thesis by simp
qed

text \<open>
  The claim as the specification words it fails: a request for text whose product name
  is three spaces is not rejected. In the deployment where everything works it is
  answered with 200 and the URL of the video.
\<close>

theorem blank_name_counterexample:
  "includeText blank_name_request = Some True \<and>
   productName blank_name_request = Some ''   '' \<and>
   trim ''   '' = [] \<and>
   fst (handler ok_env blank_name_request empty_world) =
     Response 200 (VideoUrlBody ''https://bucket.s3.us-east-1.amazonaws.com/videos%2F1002-output-1000.mp4.mp4'')"
proof -
  have blank: "trim ''   '' = []"
    by (simp add: trim_def is_space_def)
  then have st: "showText (Some True) (Some ''   '') = False"
    by (simp add: showText_def)
  have "fst (handler ok_env blank_name_request empty_world) =
     Response 200 (VideoUrlBody ''https://bucket.s3.us-east-1.amazonaws.com/videos%2F1002-output-1000.mp4.mp4'')"
    apply (simp add: handler_def blank_name_request_def slide_request_def slide_funky
        ffmpegPath_ok_env falsy_def)
    apply (simp add: run_defs st dec_examples ok_env_def empty_world_def)
    done
  then show ?thesis
    using blank by (simp add: blank_name_request_def slide_request_def)
qed

text \<open>
  Claim C6, amended. A POST request without an image reference or without a template
  id, or with a template id that no template has, is rejected with status 400 before
  any processing: the world is as it was. A product name that is missing, empty or
  white space only is not a reason to reject: no text is shown, and the request is
  handled as the same request with \<open>includeText = false\<close>.
\<close>

theorem invalid_input_rejected:
  "req_method req = ''POST'' \<longrightarrow>
     (falsy (imageKey req) \<or> falsy (templateId req) \<longrightarrow>
        handler e req w = (Response 400 (ErrorBody ''Missing params''), w)) \<and>
     (\<not> falsy (imageKey req) \<and>
      (\<exists>tid. templateId req = Some tid \<and> tid \<noteq> [] \<and> getTemplateById tid = None) \<longrightarrow>
        handler e req w = (Response 400 (ErrorBody ''Invalid template''), w)) \<and>
     ((\<forall>s. productName req = Some s \<longrightarrow> trim s = []) \<longrightarrow>
        \<not> showText (includeText req) (productName req) \<and>
        handler e req w = handler e (req\<lparr>includeText := Some False\<rparr>) w)"
  using missing_params [of req e w] invalid_template [of req _ e w]
    blank_name_not_rejected [of req e w]
  by blast

theorem invalid_input_rejected_witness:
  "handler ok_env no_image_request empty_world =
     (Response 400 (ErrorBody ''Missing params''), empty_world) \<and>
   handler ok_env unknown_template_request empty_world =
     (Response 400 (ErrorBody ''Invalid template''), empty_world) \<and>
   handler ok_env blank_name_request empty_world =
     handler ok_env (blank_name_request\<lparr>includeText := Some False\<rparr>) empty_world"
proof -
  have "handler ok_env no_image_request empty_world =
     (Response 400 (ErrorBody ''Missing params''), empty_world)"
    using invalid_input_rejected [of no_image_request ok_env empty_world]
    by (simp add: no_image_request_def slide_request_def falsy_def)
  moreover have "getTemplateById ''spin-jazzy'' = None"
    by (simp add: getTemplateById_def templates_def)
  then have "handler ok_env unknown_template_request empty_world =
     (Response 400 (ErrorBody ''Invalid template''), empty_world)"
    using invalid_input_rejected [of unknown_template_request ok_env empty_world]
    by (simp add: unknown_template_request_def slide_request_def falsy_def)
  moreover have "trim ''   '' = []"
    by (simp add: trim_def is_space_def)
  then have "handler ok_env blank_name_request empty_world =
     handler ok_env (blank_name_request\<lparr>includeText := Some False\<rparr>) empty_world"
    using invalid_input_rejected [of blank_name_request ok_env empty_world]
    by (simp add: blank_name_request_def slide_request_def)
  ultimately show ?thesis
    by simp
qed

section \<open>Two runs in the same millisecond\<close>

lemma temp_paths_examples:
  "temp_paths ok_env =
     [''/tmp/input-1000.jpg'', ''/tmp/output-1000.mp4'', ''/tmp/frames-1001'',
      ''/tmp/slide-input-1001.png'']"
  "temp_paths later_env =
     [''/tmp/input-1003.jpg'', ''/tmp/output-1003.mp4'', ''/tmp/frames-1004'',
      ''/tmp/slide-input-1004.png'']"
  by (simp_all add: temp_paths_def paths_unfolded dir_part_tmp later_env_def ok_env_def
      dec_examples)

text \<open>
  Claim C9. The claim holds of no two runs that read the same millisecond: the paths
  are named after the clock alone, so such runs of one process write the same files.
  Here two runs serve different images and name their paths in the same milliseconds;
  both write the input image to \<open>/tmp/input-1000.jpg\<close>, and all four temporary paths
  of the one are the paths of the other.
\<close>

theorem same_millisecond_collision:
  "imageKey slide_request \<noteq> imageKey other_slide_request \<and>
   temp_paths ok_env = temp_paths same_ms_env \<and>
   inputImagePath ok_env = ''/tmp/input-1000.jpg'' \<and>
   inputImagePath ok_env \<in> created (snd (handler ok_env slide_request empty_world)) \<and>
   inputImagePath same_ms_env \<in> created (snd (handler same_ms_env other_slide_request empty_world))"
proof -
  have "temp_paths ok_env = temp_paths same_ms_env"
    by (simp add: temp_paths_def paths_unfolded same_ms_env_def)
  moreover have "inputImagePath ok_env = ''/tmp/input-1000.jpg''"
    by (simp add: paths_unfolded dir_part_tmp ok_env_def dec_examples)
  moreover have "ffmpegPath same_ms_env = Some ''/app/node_modules/ffmpeg-static/ffmpeg''"
    by (simp add: ffmpegPath_def same_ms_env_def ok_env_def falsy_def)
  then have "inputImagePath same_ms_env
      \<in> created (snd (handler same_ms_env other_slide_request empty_world))"
    apply (simp add: handler_def other_slide_request_def slide_request_def slide_funky falsy_def)
    apply (simp add: run_defs showText_def trim_def is_space_def same_ms_env_def ok_env_def
        empty_world_def)
    done
  moreover have "inputImagePath ok_env \<in> created (snd (handler ok_env slide_request empty_world))"
    apply (simp add: handler_def slide_request_def slide_funky ffmpegPath_ok_env falsy_def)
    apply (simp add: run_defs showText_def trim_def is_space_def ok_env_def empty_world_def)
    done
  ultimately show ?thesis
    by (simp add: other_slide_request_def slide_request_def)
qed

section \<open>The calls of a run\<close>

lemma emitsI:
  assumes "\<And>w r w'. m w = (r, w') \<Longrightarrow> \<exists>cs. calls w' = calls w @ cs \<and> (\<forall>c\<in>set cs. P c)"
  shows "emits P m"
  using assms by (simp add: emits_def)

lemma emitsD:
  assumes "emits P m" and "m w = (r, w')"
  shows "\<exists>cs. calls w' = calls w @ cs \<and> (\<forall>c\<in>set cs. P c)"
  using assms by (simp add: emits_def)

lemma emits_ret: "emits P (ret x)"
  by (simp add: emits_def ret_def)

lemma emits_andThen:
  assumes "emits P m" and "\<And>x w w1. m w = (Inr x, w1) \<Longrightarrow> emits P (f x)"
  shows "emits P (andThen m f)"
proof (rule emitsI)
  fix w r w'
  assume run: "andThen m f w = (r, w')"
  obtain r1 w1 where m: "m w = (r1, w1)"
    by (cases "m w")
  from emitsD [OF assms(1) m] obtain cs where
    cs: "calls w1 = calls w @ cs" "\<forall>c\<in>set cs. P c"
    by blast
  show "\<exists>cs. calls w' = calls w @ cs \<and> (\<forall>c\<in>set cs. P c)"
  proof (cases r1)
    case (Inl msg)
    then have "w' = w1"
      using run m by (simp add: andThen_def)
    then show ?thesis
      using cs by blast
  next
    case (Inr x)
    then have "f x w1 = (r, w')"
      using run m by (simp add: andThen_def)
    moreover have "emits P (f x)"
      using m Inr by (intro assms(2)) simp
    ultimately obtain ds where "calls w' = calls w1 @ ds" "\<forall>c\<in>set ds. P c"
      using emitsD by blast
    then have "calls w' = calls w @ (cs @ ds)" and "\<forall>c\<in>set (cs @ ds). P c"
      using cs by auto
    then show ?thesis
      by blast
  qed
qed

lemma emits_attempt:
  assumes "emits P m" and "\<And>msg. emits P (h msg)"
  shows "emits P (attempt m h)"
proof (rule emitsI)
  fix w r w'
  assume run: "attempt m h w = (r, w')"
  obtain r1 w1 where m: "m w = (r1, w1)"
    by (cases "m w")
  from emitsD [OF assms(1) m] obtain cs where
    cs: "calls w1 = calls w @ cs" "\<forall>c\<in>set cs. P c"
    by blast
  show "\<exists>cs. calls w' = calls w @ cs \<and> (\<forall>c\<in>set cs. P c)"
  proof (cases r1)
    case (Inr x)
    then have "w' = w1"
      using run m by (simp add: attempt_def)
    then show ?thesis
      using cs by blast
  next
    case (Inl msg)
    then have "h msg w1 = (r, w')"
      using run m by (simp add: attempt_def)
    then obtain ds where "calls w' = calls w1 @ ds" "\<forall>c\<in>set ds. P c"
      using emitsD [OF assms(2)] by blast
    then have "calls w' = calls w @ (cs @ ds)" and "\<forall>c\<in>set (cs @ ds). P c"
      using cs by auto
    then show ?thesis
      by blast
  qed
qed

lemma emits_fs:
  "emits P (writeFileSync e p)" "emits P (mkdirSync e p)" "emits P (unlinkSync e p)"
  "emits P (rmSync e p)" "emits P (readFileSync e p)"
  by (auto simp: emits_def writeFileSync_def mkdirSync_def unlinkSync_def rmSync_def
      readFileSync_def create_file_def split: option.splits if_splits)

lemma emits_getObjectBuffer: "P (GetObject k) \<Longrightarrow> emits P (getObjectBuffer e k)"
  by (simp add: emits_def getObjectBuffer_def log_call_def)

lemma emits_uploadToS3: "P (PutObject k) \<Longrightarrow> emits P (uploadToS3 e k)"
  by (simp add: emits_def uploadToS3_def log_call_def)

lemma emits_sharp_metadata: "P SharpMetadata \<Longrightarrow> emits P (sharp_metadata e b)"
  by (simp add: emits_def sharp_metadata_def log_call_def)

lemma emits_sharp_toFile: "P job \<Longrightarrow> emits P (sharp_toFile e job p)"
  by (auto simp: emits_def sharp_toFile_def log_call_def create_file_def split: option.splits)

lemma emits_ffmpeg_save: "P job \<Longrightarrow> emits P (ffmpeg_save e job p)"
  by (auto simp: emits_def ffmpeg_save_def log_call_def create_file_def split: option.splits)

lemma emits_frame_loop:
  assumes "\<And>i. emits P (body i)"
  shows "emits P (frame_loop body i n)"
proof (induction n arbitrary: i)
  case 0
  show ?case by (simp add: emits_ret)
next
  case (Suc n)
  show ?case
    by (simp, rule emits_andThen) (rule assms, rule Suc.IH)
qed

text \<open>What the storage and sharp returned is what the environment holds.\<close>

lemma getObjectBuffer_result: "getObjectBuffer e k w = (Inr b, w1) \<Longrightarrow> s3_get e k = Inr b"
  by (simp add: getObjectBuffer_def)

lemma sharp_metadata_result: "sharp_metadata e b w = (Inr m, w1) \<Longrightarrow> metadata e b = Inr m"
  by (simp add: sharp_metadata_def)

text \<open>The handler adds the calls of the try block, or none.\<close>

lemma handler_world:
  "snd (handler e req w) = w \<or>
   (\<exists>key t. imageKey req = Some key \<and>
      snd (handler e req w) = snd (generate e key t (productName req) (includeText req) w))"
proof (cases "imageKey req")
  case None
  then show ?thesis
    by (simp add: handler_def)
next
  case key: (Some key)
  show ?thesis
  proof (cases "templateId req")
    case None
    then show ?thesis
      using key by (simp add: handler_def)
  next
    case tid: (Some tid)
    show ?thesis
    proof (cases "getTemplateById tid")
      case None
      then show ?thesis
        using key tid by (simp add: handler_def)
    next
      case (Some t)
      obtain r w' where g: "generate e key t (productName req) (includeText req) w = (r, w')"
        by (cases "generate e key t (productName req) (includeText req) w")
      have "snd (handler e req w) = w \<or> snd (handler e req w) = w'"
        using key tid Some g by (cases r) (simp_all add: handler_def)
      then show ?thesis
        using key g by (metis snd_conv)
    qed
  qed
qed

lemma handler_new_calls:
  assumes "\<And>key t. imageKey req = Some key \<Longrightarrow>
             emits P (generate e key t (productName req) (includeText req))"
    and "c \<in> set (new_calls w (snd (handler e req w)))"
  shows "P c"
proof -
  have "\<exists>cs. calls (snd (handler e req w)) = calls w @ cs \<and> (\<forall>c\<in>set cs. P c)"
    using handler_world [of e req w]
  proof
    assume "snd (handler e req w) = w"
    then show ?thesis
      by simp
  next
    assume "\<exists>key t. imageKey req = Some key \<and>
      snd (handler e req w) = snd (generate e key t (productName req) (includeText req) w)"
    then obtain key t where k: "imageKey req = Some key"
      and s: "snd (handler e req w) = snd (generate e key t (productName req) (includeText req) w)"
      by blast
    obtain r w' where g: "generate e key t (productName req) (includeText req) w = (r, w')"
      by (cases "generate e key t (productName req) (includeText req) w")
    show ?thesis
      using emitsD [OF assms(1) [OF k] g] s g by simp
  qed
  then show ?thesis
    using assms(2) by (auto simp: new_calls_def)
qed

section \<open>The markup that the handler hands to sharp\<close>

lemma zoom_branch_escaped:
  "emits (markup_escaped pn dims) (zoom_branch e t b st pn)"
  unfolding zoom_branch_def Let_def
  by (intro emits_andThen emits_fs emits_sharp_metadata emits_frame_loop emits_ffmpeg_save)
    (auto simp: markup_escaped_def render_frame_def Let_def frame_overlay_def zoom_svg_def
      overlay_svg_def intro!: emits_sharp_toFile split: option.splits)

lemma composite_slide_escaped:
  "emits (markup_escaped (Some s) (buffer_dims e b)) (composite_slide e b s)"
  unfolding composite_slide_def Let_def
proof (rule emits_andThen)
  show "emits (markup_escaped (Some s) (buffer_dims e b)) (sharp_metadata e b)"
    by (rule emits_sharp_metadata) (simp add: markup_escaped_def)
next
  fix m w w1
  assume "sharp_metadata e b w = (Inr m, w1)"
  then have "buffer_dims e b = Some (or_default (fst m) 1280, or_default (snd m) 720)"
    by (simp add: buffer_dims_def sharp_metadata_result)
  then show "emits (markup_escaped (Some s) (buffer_dims e b))
     (andThen (sharp_toFile e
         (CompositeSlide (slide_svg (or_default (fst m) 1280) (or_default (snd m) 720) s)
            (withTextPath e)) (withTextPath e))
       (\<lambda>_. ret (withTextPath e)))"
    by (intro emits_andThen emits_sharp_toFile emits_ret)
      (simp add: markup_escaped_def slide_svg_def overlay_svg_def)
qed

lemma slide_branch_escaped:
  "emits (markup_escaped pn (buffer_dims e b)) (slide_branch e t b st pn)"
  unfolding slide_branch_def
proof (intro emits_andThen emits_attempt emits_ffmpeg_save)
  show "emits (markup_escaped pn (buffer_dims e b))
     (if st then case pn of None \<Rightarrow> ret (inputImagePath e)
        | Some s \<Rightarrow> attempt (composite_slide e b s) (\<lambda>_. ret (inputImagePath e))
      else ret (inputImagePath e))"
    by (auto simp: emits_ret composite_slide_escaped intro!: emits_attempt split: option.splits)
qed (auto simp: markup_escaped_def emits_ret emits_fs)

lemma generate_escaped:
  "emits (markup_escaped pn (key_dims e key)) (generate e key t pn it)"
  unfolding generate_def
proof (rule emits_andThen)
  show "emits (markup_escaped pn (key_dims e key)) (getObjectBuffer e key)"
    by (rule emits_getObjectBuffer) (simp add: markup_escaped_def)
next
  fix b w w1
  assume "getObjectBuffer e key w = (Inr b, w1)"
  then have d: "key_dims e key = buffer_dims e b"
    by (simp add: key_dims_def getObjectBuffer_result)
  show "emits (markup_escaped pn (key_dims e key))
     (andThen (writeFileSync e (inputImagePath e)) (\<lambda>_.
      andThen
       (if style t = Zoom
        then zoom_branch e t b (showText it pn) pn
        else slide_branch e t b (showText it pn) pn) (\<lambda>_.
      andThen (readFileSync e (outputVideoPath e)) (\<lambda>_.
      andThen (uploadToS3 e (video_key e)) (\<lambda>videoUrl.
      andThen (unlinkSync e (inputImagePath e)) (\<lambda>_.
      andThen (unlinkSync e (outputVideoPath e)) (\<lambda>_.
      ret videoUrl)))))))"
    unfolding d
    by (intro emits_andThen emits_fs emits_ret emits_uploadToS3)
      (auto simp: markup_escaped_def zoom_branch_escaped slide_branch_escaped)
qed


text \<open>
  Claim C8. Every call that the handler makes to \<open>sharp\<close> with markup, a frame of the
  zoom with its overlay or the composite of the slide, carries the SVG template with the
  trimmed product name escaped by \<open>escapeXml\<close> in both places where the text goes. And
  \<open>escapeXml\<close> escapes all five metacharacters, the ampersand first: it is what replacing
  each character by its entity in one pass gives, so no \<open><\<close>, \<open>>\<close>, quotation mark or
  apostrophe of the input reaches the markup, and every ampersand of the embedded text
  starts an entity.
\<close>

theorem handler_markup_escaped:
  assumes "c \<in> set (new_calls w (snd (handler e req w)))"
  shows "markup_escaped (productName req) (image_dims e req) c \<and>
         escapeXml s = concat (map escape_char s) \<and>
         CHR ''<'' \<notin> set (escapeXml s) \<and> CHR ''>'' \<notin> set (escapeXml s) \<and>
         CHR 0x22 \<notin> set (escapeXml s) \<and> CHR 0x27 \<notin> set (escapeXml s) \<and>
         xml_safe (escapeXml s)"
proof -
  have "emits (markup_escaped (productName req) (image_dims e req))
      (generate e key t (productName req) (includeText req))"
    if "imageKey req = Some key" for key t
    using that generate_escaped [of "productName req" e key t "includeText req"]
    by (simp add: image_dims_def)
  then have "markup_escaped (productName req) (image_dims e req) c"
    using assms by (rule handler_new_calls)
  then show ?thesis
    using escapeXml_one_pass [of s] no_raw_escapeXml [of s] xml_safe_escapeXml [of s]
    by blast
qed

text \<open>The calls of the slide run of the specification's test, in order.\<close>

lemma slide_run_calls:
  "new_calls empty_world (snd (handler ok_env slide_request empty_world)) =
     [GetObject ''uploads/1-a.jpg'', SharpMetadata,
      CompositeSlide (slide_svg 1920 1080 ''A&B<Test>'') ''/tmp/slide-input-1001.png'',
      Ffmpeg ''/tmp/slide-input-1001.png'' ''/app/public/musics/funky.mp3''
        (Some (slide_filters \<lparr> template_id = ''slide-funky'', template_name = ''Funky Slide'',
           style = Slide, musicFile = ''/musics/funky.mp3'', durationSeconds = 6 \<rparr>))
        ''/tmp/output-1000.mp4'',
      PutObject ''videos/1002-output-1000.mp4.mp4'']"
  apply (simp add: handler_def slide_request_def slide_funky ffmpegPath_ok_env falsy_def)
  apply (simp add: run_defs showText_def trim_def is_space_def dec_examples new_calls_def
      audio_input_def audioFileAvailable_def musicFullPath_def path_join_def path_normalize_def
      ok_env_def empty_world_def)
  done

theorem handler_markup_escaped_witness:
  "CompositeSlide (slide_svg 1920 1080 ''A&B<Test>'') ''/tmp/slide-input-1001.png''
     \<in> set (new_calls empty_world (snd (handler ok_env slide_request empty_world))) \<and>
   productName slide_request = Some ''A&B<Test>'' \<and>
   image_dims ok_env slide_request = Some (1920, 1080) \<and>
   markup_escaped (Some ''A&B<Test>'') (Some (1920, 1080))
     (CompositeSlide (slide_svg 1920 1080 ''A&B<Test>'') ''/tmp/slide-input-1001.png'') \<and>
   slide_svg 1920 1080 ''A&B<Test>'' =
     svg_before ''1920'' ''1080'' ''80'' @ ''A&amp;B&lt;Test&gt;'' @ svg_between @
     ''A&amp;B&lt;Test&gt;'' @ svg_after"
proof -
  have m: "CompositeSlide (slide_svg 1920 1080 ''A&B<Test>'') ''/tmp/slide-input-1001.png''
     \<in> set (new_calls empty_world (snd (handler ok_env slide_request empty_world)))"
    by (simp add: slide_run_calls)
  have d: "image_dims ok_env slide_request = Some (1920, 1080)"
    by (simp add: image_dims_def key_dims_def buffer_dims_def or_default_def slide_request_def
        ok_env_def)
  have n: "productName slide_request = Some ''A&B<Test>''"
    by (simp add: slide_request_def)
  have t: "trim ''A&B<Test>'' = ''A&B<Test>''"
    by (simp add: trim_def is_space_def)
  have "slide_fontSize 1920 = 80"
    by (simp add: slide_fontSize_def js_round_def)
  then have v: "slide_svg 1920 1080 ''A&B<Test>'' =
     svg_before ''1920'' ''1080'' ''80'' @ ''A&amp;B&lt;Test&gt;'' @ svg_between @
     ''A&amp;B&lt;Test&gt;'' @ svg_after"
    by (simp add: slide_svg_def overlay_svg_def t escapeXml_example dec_examples)
  show ?thesis
    using handler_markup_escaped [OF m] m d n v by simp
qed

section \<open>When the text is shown\<close>

lemma zoom_branch_follows:
  assumes "st \<Longrightarrow> pn \<noteq> None"
  shows "emits (follows_decision st si) (zoom_branch e t b st pn)"
  unfolding zoom_branch_def Let_def
  using assms
  by (intro emits_andThen emits_fs emits_sharp_metadata emits_frame_loop emits_ffmpeg_save)
    (auto simp: follows_decision_def render_frame_def Let_def frame_overlay_def
      intro!: emits_sharp_toFile split: option.splits)

lemma composite_slide_result:
  assumes "composite_slide e b s w = (r, w')"
  shows "case r of
           Inl msg \<Rightarrow> buffer_dims e b = None \<or> toFile_error e (withTextPath e) \<noteq> None
         | Inr p \<Rightarrow> p = withTextPath e \<and> buffer_dims e b \<noteq> None \<and>
                     toFile_error e (withTextPath e) = None"
  using assms
  by (auto simp: composite_slide_def andThen_def sharp_metadata_def sharp_toFile_def ret_def
      buffer_dims_def Let_def split: sum.splits option.splits)

lemma composite_slide_follows:
  "emits (follows_decision True si) (composite_slide e b s)"
  unfolding composite_slide_def Let_def
  by (intro emits_andThen emits_sharp_metadata emits_sharp_toFile emits_ret)
    (simp_all add: follows_decision_def)

lemma slide_input_result:
  assumes "(if st then case pn of None \<Rightarrow> ret (inputImagePath e)
        | Some s \<Rightarrow> attempt (composite_slide e b s) (\<lambda>_. ret (inputImagePath e))
      else ret (inputImagePath e)) w = (Inr si, w1)"
    and "st \<Longrightarrow> pn \<noteq> None"
  shows "si = (if st \<and> buffer_dims e b \<noteq> None \<and> toFile_error e (withTextPath e) = None
               then withTextPath e else inputImagePath e)"
proof (cases st)
  case False
  then show ?thesis
    using assms(1) by (simp add: ret_def)
next
  case True
  then obtain s where s: "pn = Some s"
    using assms(2) by auto
  obtain r w0 where c: "composite_slide e b s w = (r, w0)"
    by (cases "composite_slide e b s w")
  show ?thesis
    using composite_slide_result [OF c] assms(1) True s c
    by (cases r) (auto simp: attempt_def ret_def)
qed

lemma slide_branch_follows:
  assumes "st \<Longrightarrow> pn \<noteq> None"
  shows "emits (follows_decision st
           (if st \<and> buffer_dims e b \<noteq> None \<and> toFile_error e (withTextPath e) = None
            then withTextPath e else inputImagePath e))
         (slide_branch e t b st pn)"
  unfolding slide_branch_def
proof (rule emits_andThen)
  show "emits (follows_decision st
           (if st \<and> buffer_dims e b \<noteq> None \<and> toFile_error e (withTextPath e) = None
            then withTextPath e else inputImagePath e))
     (if st then case pn of None \<Rightarrow> ret (inputImagePath e)
        | Some s \<Rightarrow> attempt (composite_slide e b s) (\<lambda>_. ret (inputImagePath e))
      else ret (inputImagePath e))"
    by (auto simp: emits_ret composite_slide_follows intro!: emits_attempt split: option.splits)
next
  fix si w w1
  assume "(if st then case pn of None \<Rightarrow> ret (inputImagePath e)
        | Some s \<Rightarrow> attempt (composite_slide e b s) (\<lambda>_. ret (inputImagePath e))
      else ret (inputImagePath e)) w = (Inr si, w1)"
  then have si: "si = (if st \<and> buffer_dims e b \<noteq> None \<and> toFile_error e (withTextPath e) = None
               then withTextPath e else inputImagePath e)"
    using assms by (rule slide_input_result)
  show "emits (follows_decision st
           (if st \<and> buffer_dims e b \<noteq> None \<and> toFile_error e (withTextPath e) = None
            then withTextPath e else inputImagePath e))
     (andThen (ffmpeg_save e
                (Ffmpeg si (audio_input e t) (Some (slide_filters t)) (outputVideoPath e))
                (outputVideoPath e)) (\<lambda>_.
      attempt
       (if si \<noteq> inputImagePath e then unlinkSync e si else ret ())
       (\<lambda>_. ret ())))"
    unfolding si [symmetric]
    by (intro emits_andThen emits_attempt emits_ffmpeg_save)
      (auto simp: follows_decision_def emits_ret emits_fs)
qed

lemma generate_follows:
  "emits (follows_decision (showText it pn)
           (if showText it pn \<and> key_dims e key \<noteq> None \<and> toFile_error e (withTextPath e) = None
            then withTextPath e else inputImagePath e))
         (generate e key t pn it)"
  unfolding generate_def
proof (rule emits_andThen)
  show "emits (follows_decision (showText it pn)
           (if showText it pn \<and> key_dims e key \<noteq> None \<and> toFile_error e (withTextPath e) = None
            then withTextPath e else inputImagePath e)) (getObjectBuffer e key)"
    by (rule emits_getObjectBuffer) (simp add: follows_decision_def)
next
  fix b w w1
  assume "getObjectBuffer e key w = (Inr b, w1)"
  then have d: "key_dims e key = buffer_dims e b"
    by (simp add: key_dims_def getObjectBuffer_result)
  have pn: "showText it pn \<Longrightarrow> pn \<noteq> None"
    by (auto simp: showText_iff)
  show "emits (follows_decision (showText it pn)
           (if showText it pn \<and> key_dims e key \<noteq> None \<and> toFile_error e (withTextPath e) = None
            then withTextPath e else inputImagePath e))
     (andThen (writeFileSync e (inputImagePath e)) (\<lambda>_.
      andThen
       (if style t = Zoom
        then zoom_branch e t b (showText it pn) pn
        else slide_branch e t b (showText it pn) pn) (\<lambda>_.
      andThen (readFileSync e (outputVideoPath e)) (\<lambda>_.
      andThen (uploadToS3 e (video_key e)) (\<lambda>videoUrl.
      andThen (unlinkSync e (inputImagePath e)) (\<lambda>_.
      andThen (unlinkSync e (outputVideoPath e)) (\<lambda>_.
      ret videoUrl)))))))"
    unfolding d
  proof (intro emits_andThen emits_fs emits_ret emits_uploadToS3)
    show "emits (follows_decision (showText it pn)
           (if showText it pn \<and> buffer_dims e b \<noteq> None \<and> toFile_error e (withTextPath e) = None
            then withTextPath e else inputImagePath e))
       (if style t = Zoom
        then zoom_branch e t b (showText it pn) pn
        else slide_branch e t b (showText it pn) pn)"
    proof (cases "style t = Zoom")
      case True
      show ?thesis
        unfolding if_P [OF True] by (rule zoom_branch_follows) (rule pn)
    next
      case False
      show ?thesis
        unfolding if_not_P [OF False] by (rule slide_branch_follows) (rule pn)
    qed
  qed (simp add: follows_decision_def)
qed

text \<open>
  The claim as the specification words it fails on the slide path. The request leaves
  \<open>includeText\<close> out and names a product, so the text is asked for; \<open>sharp\<close> throws when
  it writes the composite; the handler catches the error, goes on without the text and
  answers 200. The encoder has read the image without the overlay, and no composite was
  ever written.
\<close>

theorem overlay_skipped_counterexample:
  "includeText default_text_request = None \<and>
   productName default_text_request = Some ''A&B<Test>'' \<and>
   trim ''A&B<Test>'' = ''A&B<Test>'' \<and>
   fst (handler composite_fails_env default_text_request empty_world) =
     Response 200 (VideoUrlBody ''https://bucket.s3.us-east-1.amazonaws.com/videos%2F1002-output-1000.mp4.mp4'') \<and>
   encoder_inputs (calls (snd (handler composite_fails_env default_text_request empty_world))) =
     [''/tmp/input-1000.jpg''] \<and>
   created (snd (handler composite_fails_env default_text_request empty_world)) =
     {''/tmp/output-1000.mp4'', ''/tmp/input-1000.jpg''}"
proof -
  have p: "ffmpegPath composite_fails_env = Some ''/app/node_modules/ffmpeg-static/ffmpeg''"
    by (simp add: ffmpegPath_def composite_fails_env_def ok_env_def falsy_def)
  have t: "trim ''A&B<Test>'' = ''A&B<Test>''"
    by (simp add: trim_def is_space_def)
  have r: "fst (handler composite_fails_env default_text_request empty_world) =
     Response 200 (VideoUrlBody ''https://bucket.s3.us-east-1.amazonaws.com/videos%2F1002-output-1000.mp4.mp4'')"
    apply (simp add: handler_def default_text_request_def slide_request_def slide_funky p falsy_def)
    apply (simp add: run_defs showText_def t dec_examples composite_fails_env_def ok_env_def
        empty_world_def)
    done
  have i: "encoder_inputs (calls (snd (handler composite_fails_env default_text_request empty_world))) =
     [''/tmp/input-1000.jpg'']"
    apply (simp add: handler_def default_text_request_def slide_request_def slide_funky p falsy_def)
    apply (simp add: run_defs showText_def t dec_examples encoder_inputs_def
        composite_fails_env_def ok_env_def empty_world_def)
    done
  have c: "created (snd (handler composite_fails_env default_text_request empty_world)) =
     {''/tmp/output-1000.mp4'', ''/tmp/input-1000.jpg''}"
    apply (simp add: handler_def default_text_request_def slide_request_def slide_funky p falsy_def)
    apply (simp add: run_defs showText_def t dec_examples composite_fails_env_def ok_env_def
        empty_world_def)
    done
  show ?thesis
    using t r i c by (simp add: default_text_request_def slide_request_def)
qed

text \<open>
  Claim C10, amended. When the request leaves \<open>includeText\<close> out, the text counts as asked
  for, as with \<open>includeText = true\<close>: the text is shown exactly when the product name is
  there and is not empty once trimmed, and only \<open>includeText = false\<close> turns it off. In
  the handler, every frame of the zoom is composited with the overlay when the text is
  shown, and none is when it is not. On the slide path the image is composited only when
  the text is shown, and the encoder reads the composite exactly when the text is shown
  and compositing did not throw; when it throws, the encoder reads the image without text.
\<close>

theorem includeText_default_in_handler:
  assumes "c \<in> set (new_calls w (snd (handler e req w)))"
  shows "showText None pn = (\<exists>s. pn = Some s \<and> trim s \<noteq> []) \<and>
         showText (Some True) pn = showText None pn \<and>
         \<not> showText (Some False) pn \<and>
         follows_decision (showText (includeText req) (productName req))
           (if showText (includeText req) (productName req) \<and> composite_ok e req
            then withTextPath e else inputImagePath e) c"
proof -
  let ?P = "follows_decision (showText (includeText req) (productName req))
           (if showText (includeText req) (productName req) \<and> composite_ok e req
            then withTextPath e else inputImagePath e)"
  have "emits ?P (generate e key t (productName req) (includeText req))"
    if "imageKey req = Some key" for key t
    using that generate_follows [of "includeText req" "productName req" e key t]
    by (simp add: composite_ok_def image_dims_def)
  then have "?P c"
    using assms by (rule handler_new_calls)
  then show ?thesis
    using showText_iff [of None pn] showText_iff [of "Some True" pn]
      showText_iff [of "Some False" pn]
    by simp
qed

lemma default_text_run_calls:
  "new_calls empty_world (snd (handler ok_env default_text_request empty_world)) =
     [GetObject ''uploads/1-a.jpg'', SharpMetadata,
      CompositeSlide (slide_svg 1920 1080 ''A&B<Test>'') ''/tmp/slide-input-1001.png'',
      Ffmpeg ''/tmp/slide-input-1001.png'' ''/app/public/musics/funky.mp3''
        (Some (slide_filters \<lparr> template_id = ''slide-funky'', template_name = ''Funky Slide'',
           style = Slide, musicFile = ''/musics/funky.mp3'', durationSeconds = 6 \<rparr>))
        ''/tmp/output-1000.mp4'',
      PutObject ''videos/1002-output-1000.mp4.mp4'']"
  apply (simp add: handler_def default_text_request_def slide_request_def slide_funky
      ffmpegPath_ok_env falsy_def)
  apply (simp add: run_defs showText_def trim_def is_space_def dec_examples new_calls_def
      audio_input_def audioFileAvailable_def musicFullPath_def path_join_def path_normalize_def
      ok_env_def empty_world_def)
  done

theorem includeText_default_in_handler_witness:
  "includeText default_text_request = None \<and>
   showText (includeText default_text_request) (productName default_text_request) \<and>
   composite_ok ok_env default_text_request \<and>
   withTextPath ok_env = ''/tmp/slide-input-1001.png'' \<and>
   encoder_inputs (new_calls empty_world (snd (handler ok_env default_text_request empty_world))) =
     [''/tmp/slide-input-1001.png''] \<and>
   follows_decision True ''/tmp/slide-input-1001.png''
     (Ffmpeg ''/tmp/slide-input-1001.png'' ''/app/public/musics/funky.mp3''
        (Some (slide_filters \<lparr> template_id = ''slide-funky'', template_name = ''Funky Slide'',
           style = Slide, musicFile = ''/musics/funky.mp3'', durationSeconds = 6 \<rparr>))
        ''/tmp/output-1000.mp4'')"
proof -
  have m: "Ffmpeg ''/tmp/slide-input-1001.png'' ''/app/public/musics/funky.mp3''
        (Some (slide_filters \<lparr> template_id = ''slide-funky'', template_name = ''Funky Slide'',
           style = Slide, musicFile = ''/musics/funky.mp3'', durationSeconds = 6 \<rparr>))
        ''/tmp/output-1000.mp4''
     \<in> set (new_calls empty_world (snd (handler ok_env default_text_request empty_world)))"
    by (simp add: default_text_run_calls)
  have s: "showText (includeText default_text_request) (productName default_text_request)"
    by (simp add: showText_def trim_def is_space_def default_text_request_def slide_request_def)
  have p: "withTextPath ok_env = ''/tmp/slide-input-1001.png''"
    by (simp add: paths_unfolded dir_part_tmp ok_env_def dec_examples)
  have k: "composite_ok ok_env default_text_request"
    by (simp add: composite_ok_def image_dims_def key_dims_def buffer_dims_def
        default_text_request_def slide_request_def ok_env_def)
  have i: "encoder_inputs (new_calls empty_world (snd (handler ok_env default_text_request empty_world))) =
     [''/tmp/slide-input-1001.png'']"
    by (simp add: default_text_run_calls encoder_inputs_def)
  have "follows_decision
          (showText (includeText default_text_request) (productName default_text_request))
          (if showText (includeText default_text_request) (productName default_text_request) \<and>
              composite_ok ok_env default_text_request
           then withTextPath ok_env else inputImagePath ok_env)
          (Ffmpeg ''/tmp/slide-input-1001.png'' ''/app/public/musics/funky.mp3''
            (Some (slide_filters \<lparr> template_id = ''slide-funky'', template_name = ''Funky Slide'',
               style = Slide, musicFile = ''/musics/funky.mp3'', durationSeconds = 6 \<rparr>))
            ''/tmp/output-1000.mp4'')"
    using includeText_default_in_handler [OF m] by blast
  then have f: "follows_decision True ''/tmp/slide-input-1001.png''
          (Ffmpeg ''/tmp/slide-input-1001.png'' ''/app/public/musics/funky.mp3''
            (Some (slide_filters \<lparr> template_id = ''slide-funky'', template_name = ''Funky Slide'',
               style = Slide, musicFile = ''/musics/funky.mp3'', durationSeconds = 6 \<rparr>))
            ''/tmp/output-1000.mp4'')"
    using s k p by simp
  have n: "includeText default_text_request = None"
    by (simp add: default_text_request_def slide_request_def)
  from n s k p i f show ?thesis
    by blast
qed

lemma showText_examples:
  "showText None (Some '' Mug '') \<and> \<not> showText None (Some ''   '') \<and> \<not> showText None None \<and>
   \<not> showText (Some False) (Some '' Mug '')"
  by (simp add: showText_def trim_def is_space_def)

section \<open>The temporary files after a run\<close>

lemma andThen_Inr:
  assumes "andThen m f w = (Inr y, w')"
  obtains x w1 where "m w = (Inr x, w1)" and "f x w1 = (Inr y, w')"
  using assms by (auto simp: andThen_def split: prod.splits sum.splits)

lemma clean_except_mono: "clean_except S w \<Longrightarrow> S \<subseteq> T \<Longrightarrow> clean_except T w"
  by (auto simp: clean_except_def)

lemma getObjectBuffer_clean:
  "getObjectBuffer e k w = (r, w') \<Longrightarrow> clean_except S w \<Longrightarrow> clean_except S w'"
  by (auto simp: getObjectBuffer_def log_call_def clean_except_def)

lemma uploadToS3_clean:
  "uploadToS3 e k w = (r, w') \<Longrightarrow> clean_except S w \<Longrightarrow> clean_except S w'"
  by (auto simp: uploadToS3_def log_call_def clean_except_def)

lemma sharp_metadata_clean:
  "sharp_metadata e b w = (r, w') \<Longrightarrow> clean_except S w \<Longrightarrow> clean_except S w'"
  by (auto simp: sharp_metadata_def log_call_def clean_except_def)

lemma readFileSync_clean:
  "readFileSync e p w = (r, w') \<Longrightarrow> clean_except S w \<Longrightarrow> clean_except S w'"
  by (auto simp: readFileSync_def split: option.splits if_splits)

lemma writeFileSync_clean:
  "writeFileSync e p w = (r, w') \<Longrightarrow> clean_except S w \<Longrightarrow> clean_except (insert p S) w'"
  by (auto simp: writeFileSync_def create_file_def clean_except_def split: option.splits)

lemma mkdirSync_clean:
  "mkdirSync e p w = (r, w') \<Longrightarrow> clean_except S w \<Longrightarrow> clean_except (insert p S) w'"
  by (auto simp: mkdirSync_def create_file_def clean_except_def split: option.splits)

lemma sharp_toFile_clean:
  "sharp_toFile e job p w = (r, w') \<Longrightarrow> clean_except S w \<Longrightarrow> clean_except (insert p S) w'"
  by (auto simp: sharp_toFile_def create_file_def log_call_def clean_except_def split: option.splits)

lemma ffmpeg_save_clean:
  "ffmpeg_save e job p w = (r, w') \<Longrightarrow> clean_except S w \<Longrightarrow> clean_except (insert p S) w'"
  by (auto simp: ffmpeg_save_def create_file_def log_call_def clean_except_def split: option.splits)

lemma unlinkSync_clean:
  "unlinkSync e p w = (Inr u, w') \<Longrightarrow> clean_except S w \<Longrightarrow> clean_except (S - {p}) w'"
  by (auto simp: unlinkSync_def clean_except_def split: option.splits if_splits)

lemma unlinkSync_throws:
  "unlinkSync e p w = (Inl msg, w') \<Longrightarrow> w' = w \<and> (fs_error e Unlink p = None \<longrightarrow> p \<notin> files w)"
  by (auto simp: unlinkSync_def split: option.splits if_splits)

lemma rmSync_clean:
  "rmSync e p w = (Inr u, w') \<Longrightarrow> clean_except S w \<Longrightarrow>
     clean_except (S - {q. q = p \<or> prefix (p @ ''/'') q}) w'"
  by (auto simp: rmSync_def clean_except_def split: option.splits)

lemma render_frame_clean:
  assumes "render_frame e (framesDir e) iw ih n st pn i w = (r, w')" and "clean_except S w"
  shows "clean_except (S \<union> {q. prefix (framesDir e @ ''/'') q}) w'"
proof -
  have "clean_except (insert (frame_path (framesDir e) i) S) w'"
    using assms by (auto simp: render_frame_def Let_def intro: sharp_toFile_clean)
  then show ?thesis
    by (rule clean_except_mono) (use prefix_frame_path in auto)
qed

lemma frame_loop_clean:
  assumes "frame_loop (render_frame e (framesDir e) iw ih n st pn) i k w = (Inr u, w')"
    and "clean_except S w"
  shows "clean_except (S \<union> {q. prefix (framesDir e @ ''/'') q}) w'"
  using assms
proof (induction k arbitrary: i w S)
  case 0
  then show ?case
    by (auto simp: ret_def intro: clean_except_mono)
next
  case (Suc k)
  from Suc.prems(1) obtain x w1 where
    step: "render_frame e (framesDir e) iw ih n st pn i w = (Inr x, w1)"
    and rest: "frame_loop (render_frame e (framesDir e) iw ih n st pn) (Suc i) k w1 = (Inr u, w')"
    by (auto elim: andThen_Inr)
  have "clean_except (S \<union> {q. prefix (framesDir e @ ''/'') q}) w1"
    using step Suc.prems(2) by (rule render_frame_clean)
  then have "clean_except ((S \<union> {q. prefix (framesDir e @ ''/'') q}) \<union>
      {q. prefix (framesDir e @ ''/'') q}) w'"
    by (rule Suc.IH [OF rest])
  then show ?case
    by simp
qed

lemma zoom_branch_clean:
  assumes "zoom_branch e t b st pn w = (Inr u, w')" and "clean_except S w"
  shows "clean_except (insert (outputVideoPath e) S) w'"
proof -
  let ?U = "{q. prefix (framesDir e @ ''/'') q}"
  from assms(1) obtain x1 w1 where
    s1: "mkdirSync e (framesDir e) w = (Inr x1, w1)"
    and r1: "andThen (sharp_metadata e b) (\<lambda>m.
       let iw = or_default (fst m) 1280;
           ih = or_default (snd m) 720
       in
     andThen (frame_loop (render_frame e (framesDir e) iw ih (frames t) st pn) 0 (frames t)) (\<lambda>_.
     andThen (ffmpeg_save e
                (Ffmpeg (path_join [framesDir e, ''frame-%04d.png'']) (audio_input e t) None
                   (outputVideoPath e))
                (outputVideoPath e)) (\<lambda>_.
     rmSync e (framesDir e)))) w1 = (Inr u, w')"
    unfolding zoom_branch_def by (rule andThen_Inr)
  from r1 obtain m w2 where
    s2: "sharp_metadata e b w1 = (Inr m, w2)"
    and r2: "andThen (frame_loop (render_frame e (framesDir e) (or_default (fst m) 1280)
                 (or_default (snd m) 720) (frames t) st pn) 0 (frames t)) (\<lambda>_.
     andThen (ffmpeg_save e
                (Ffmpeg (path_join [framesDir e, ''frame-%04d.png'']) (audio_input e t) None
                   (outputVideoPath e))
                (outputVideoPath e)) (\<lambda>_.
     rmSync e (framesDir e))) w2 = (Inr u, w')"
    by (auto simp: Let_def elim: andThen_Inr)
  from r2 obtain x3 w3 where
    s3: "frame_loop (render_frame e (framesDir e) (or_default (fst m) 1280)
                 (or_default (snd m) 720) (frames t) st pn) 0 (frames t) w2 = (Inr x3, w3)"
    and r3: "andThen (ffmpeg_save e
                (Ffmpeg (path_join [framesDir e, ''frame-%04d.png'']) (audio_input e t) None
                   (outputVideoPath e))
                (outputVideoPath e)) (\<lambda>_.
     rmSync e (framesDir e)) w3 = (Inr u, w')"
    by (rule andThen_Inr)
  from r3 obtain x4 w4 where
    s4: "ffmpeg_save e
                (Ffmpeg (path_join [framesDir e, ''frame-%04d.png'']) (audio_input e t) None
                   (outputVideoPath e))
                (outputVideoPath e) w3 = (Inr x4, w4)"
    and s5: "rmSync e (framesDir e) w4 = (Inr u, w')"
    by (rule andThen_Inr)
  have "clean_except (insert (framesDir e) S) w1"
    using s1 assms(2) by (rule mkdirSync_clean)
  then have "clean_except (insert (framesDir e) S) w2"
    using s2 by (rule sharp_metadata_clean [rotated])
  then have "clean_except (insert (framesDir e) S \<union> ?U) w3"
    using s3 by (rule frame_loop_clean [rotated])
  then have "clean_except (insert (outputVideoPath e) (insert (framesDir e) S \<union> ?U)) w4"
    using s4 by (rule ffmpeg_save_clean [rotated])
  then have "clean_except (insert (outputVideoPath e) (insert (framesDir e) S \<union> ?U)
       - {q. q = framesDir e \<or> prefix (framesDir e @ ''/'') q}) w'"
    using s5 by (rule rmSync_clean [rotated])
  then show ?thesis
    by (rule clean_except_mono) auto
qed


lemma sharp_toFile_throws_clean:
  "sharp_toFile e job p w = (Inl msg, w') \<Longrightarrow> clean_except S w \<Longrightarrow> clean_except S w'"
  by (auto simp: sharp_toFile_def log_call_def clean_except_def split: option.splits)

lemma clean_except_absent: "clean_except S w \<Longrightarrow> p \<notin> files w \<Longrightarrow> clean_except (S - {p}) w"
  by (auto simp: clean_except_def)

lemma composite_slide_clean:
  assumes "composite_slide e b s w = (r, w')" and "clean_except S w"
  shows "case r of Inl msg \<Rightarrow> clean_except S w'
         | Inr p \<Rightarrow> p = withTextPath e \<and> clean_except (insert (withTextPath e) S) w'"
proof -
  obtain r1 w1 where s1: "sharp_metadata e b w = (r1, w1)"
    by (cases "sharp_metadata e b w")
  have c1: "clean_except S w1"
    using s1 assms(2) by (rule sharp_metadata_clean)
  show ?thesis
  proof (cases r1)
    case (Inl msg)
    then show ?thesis
      using assms(1) s1 c1 by (auto simp: composite_slide_def andThen_def)
  next
    case (Inr m)
    obtain r2 w2 where s2: "sharp_toFile e
        (CompositeSlide (slide_svg (or_default (fst m) 1280) (or_default (snd m) 720) s)
           (withTextPath e)) (withTextPath e) w1 = (r2, w2)"
      by (cases "sharp_toFile e
        (CompositeSlide (slide_svg (or_default (fst m) 1280) (or_default (snd m) 720) s)
           (withTextPath e)) (withTextPath e) w1")
    show ?thesis
    proof (cases r2)
      case (Inl msg)
      then have "clean_except S w2"
        using s2 c1 sharp_toFile_throws_clean by blast
      then show ?thesis
        using assms(1) s1 s2 Inr Inl by (auto simp: composite_slide_def andThen_def Let_def)
    next
      case Inr2: (Inr u)
      have "clean_except (insert (withTextPath e) S) w2"
        using s2 c1 by (rule sharp_toFile_clean)
      then show ?thesis
        using assms(1) s1 s2 Inr Inr2
        by (auto simp: composite_slide_def andThen_def Let_def ret_def)
    qed
  qed
qed

lemma slide_input_clean:
  assumes "(if st
        then (case pn of
                None \<Rightarrow> ret (inputImagePath e)
              | Some s \<Rightarrow> attempt (composite_slide e b s) (\<lambda>_. ret (inputImagePath e)))
        else ret (inputImagePath e)) w = (Inr si, w1)"
    and "clean_except S w"
  shows "(si = inputImagePath e \<and> clean_except S w1) \<or>
         (si = withTextPath e \<and> clean_except (insert (withTextPath e) S) w1)"
proof (cases "st \<and> pn \<noteq> None")
  case False
  then show ?thesis
    using assms by (auto simp: ret_def split: if_splits)
next
  case True
  then obtain s where pn: "pn = Some s" and st: st
    by auto
  obtain r w0 where c: "composite_slide e b s w = (r, w0)"
    by (cases "composite_slide e b s w")
  show ?thesis
    using composite_slide_clean [OF c assms(2)] assms(1) c pn st
    by (cases r) (auto simp: attempt_def ret_def)
qed

lemma withTextPath_not_input: "withTextPath e \<noteq> inputImagePath e"
  by (simp add: paths_unfolded)

lemma slide_cleanup_clean:
  assumes "attempt (if si \<noteq> inputImagePath e then unlinkSync e si else ret ()) (\<lambda>_. ret ()) w
             = (Inr u, w')"
    and "clean_except S w"
  shows "clean_except S w'"
    and "si = withTextPath e \<Longrightarrow> fs_error e Unlink (withTextPath e) = None \<Longrightarrow>
           clean_except (S - {withTextPath e}) w'"
proof -
  obtain r w0 where un: "unlinkSync e si w = (r, w0)"
    by (cases "unlinkSync e si w")
  show "clean_except S w'"
  proof (cases r)
    case (Inl msg)
    then show ?thesis
      using assms un unlinkSync_throws [of e si w msg w0]
      by (auto simp: attempt_def ret_def split: if_splits)
  next
    case (Inr x)
    then have "clean_except (S - {si}) w0"
      using un assms(2) unlinkSync_clean by blast
    then have "clean_except S w0"
      by (rule clean_except_mono) auto
    then show ?thesis
      using assms un Inr by (auto simp: attempt_def ret_def split: if_splits)
  qed
  show "clean_except (S - {withTextPath e}) w'"
    if si: "si = withTextPath e" and ok: "fs_error e Unlink (withTextPath e) = None"
  proof (cases r)
    case (Inl msg)
    then have "w0 = w" and "withTextPath e \<notin> files w"
      using un unlinkSync_throws [of e si w msg w0] si ok by auto
    then show ?thesis
      using assms un Inl si withTextPath_not_input [of e] clean_except_absent
      by (auto simp: attempt_def ret_def)
  next
    case (Inr x)
    then have "clean_except (S - {si}) w0"
      using un assms(2) unlinkSync_clean by blast
    then show ?thesis
      using assms un Inr si withTextPath_not_input [of e]
      by (auto simp: attempt_def ret_def)
  qed
qed

lemma slide_branch_clean:
  assumes "slide_branch e t b st pn w = (Inr u, w')" and "clean_except S w"
  shows "clean_except (insert (outputVideoPath e) (insert (withTextPath e) S)) w'"
    and "fs_error e Unlink (withTextPath e) = None \<Longrightarrow> withTextPath e \<notin> S \<Longrightarrow>
           clean_except (insert (outputVideoPath e) S) w'"
proof -
  from assms(1) obtain si w1 where
    s1: "(if st
        then (case pn of
                None \<Rightarrow> ret (inputImagePath e)
              | Some s \<Rightarrow> attempt (composite_slide e b s) (\<lambda>_. ret (inputImagePath e)))
        else ret (inputImagePath e)) w = (Inr si, w1)"
    and r1: "andThen (ffmpeg_save e
                (Ffmpeg si (audio_input e t) (Some (slide_filters t)) (outputVideoPath e))
                (outputVideoPath e)) (\<lambda>_.
     attempt
       (if si \<noteq> inputImagePath e then unlinkSync e si else ret ())
       (\<lambda>_. ret ())) w1 = (Inr u, w')"
    unfolding slide_branch_def by (rule andThen_Inr)
  from r1 obtain x2 w2 where
    s2: "ffmpeg_save e
                (Ffmpeg si (audio_input e t) (Some (slide_filters t)) (outputVideoPath e))
                (outputVideoPath e) w1 = (Inr x2, w2)"
    and s3: "attempt (if si \<noteq> inputImagePath e then unlinkSync e si else ret ()) (\<lambda>_. ret ()) w2
               = (Inr u, w')"
    by (rule andThen_Inr)
  from slide_input_clean [OF s1 assms(2)]
  consider (plain) "si = inputImagePath e" "clean_except S w1"
    | (composited) "si = withTextPath e" "clean_except (insert (withTextPath e) S) w1"
    by blast
  then have both: "clean_except (insert (outputVideoPath e) (insert (withTextPath e) S)) w' \<and>
    (fs_error e Unlink (withTextPath e) = None \<longrightarrow> withTextPath e \<notin> S \<longrightarrow>
       clean_except (insert (outputVideoPath e) S) w')"
  proof cases
    case plain
    have "clean_except (insert (outputVideoPath e) S) w2"
      using s2 plain(2) by (rule ffmpeg_save_clean)
    then have c: "clean_except (insert (outputVideoPath e) S) w'"
      using s3 by (rule slide_cleanup_clean(1) [rotated])
    then have "clean_except (insert (outputVideoPath e) (insert (withTextPath e) S)) w'"
      by (rule clean_except_mono) auto
    with c show ?thesis by simp
  next
    case composited
    have c2: "clean_except (insert (outputVideoPath e) (insert (withTextPath e) S)) w2"
      using s2 composited(2) by (rule ffmpeg_save_clean)
    then have c: "clean_except (insert (outputVideoPath e) (insert (withTextPath e) S)) w'"
      using s3 by (rule slide_cleanup_clean(1) [rotated])
    have "clean_except (insert (outputVideoPath e) S) w'"
      if ok: "fs_error e Unlink (withTextPath e) = None"
    proof -
      have "clean_except (insert (outputVideoPath e) (insert (withTextPath e) S) - {withTextPath e}) w'"
        using s3 c2 composited(1) ok by (rule slide_cleanup_clean(2))
      then show ?thesis
        by (rule clean_except_mono) auto
    qed
    with c show ?thesis by simp
  qed
  show "clean_except (insert (outputVideoPath e) (insert (withTextPath e) S)) w'"
    using both by simp
  show "fs_error e Unlink (withTextPath e) = None \<Longrightarrow> withTextPath e \<notin> S \<Longrightarrow>
           clean_except (insert (outputVideoPath e) S) w'"
    using both by simp
qed


lemma generate_clean:
  assumes "generate e key t pn it w = (Inr url, w')" and "clean_except {} w"
  shows "clean_except {withTextPath e} w' \<and>
         (fs_error e Unlink (withTextPath e) = None \<longrightarrow> clean_except {} w')"
proof -
  from assms(1) obtain b w1 u2 w2 u3 w3 u4 w4 url' w5 u6 w6 u7 w7 where
    s1: "getObjectBuffer e key w = (Inr b, w1)"
    and s2: "writeFileSync e (inputImagePath e) w1 = (Inr u2, w2)"
    and s3: "(if style t = Zoom
        then zoom_branch e t b (showText it pn) pn
        else slide_branch e t b (showText it pn) pn) w2 = (Inr u3, w3)"
    and s4: "readFileSync e (outputVideoPath e) w3 = (Inr u4, w4)"
    and s5: "uploadToS3 e (video_key e) w4 = (Inr url', w5)"
    and s6: "unlinkSync e (inputImagePath e) w5 = (Inr u6, w6)"
    and s7: "unlinkSync e (outputVideoPath e) w6 = (Inr u7, w7)"
    and s8: "ret url' w7 = (Inr url, w')"
    unfolding generate_def by (elim andThen_Inr) blast
  let ?i = "inputImagePath e" and ?o = "outputVideoPath e" and ?s = "withTextPath e"
  have c1: "clean_except {} w1"
    using s1 assms(2) by (rule getObjectBuffer_clean)
  have c2: "clean_except {?i} w2"
    using s2 c1 by (rule writeFileSync_clean)
  have w': "w' = w7"
    using s8 by (simp add: ret_def)
  have tail: "clean_except (X - {?i} - {?o}) w'" if "clean_except X w3" for X
  proof -
    have "clean_except X w4"
      using s4 that by (rule readFileSync_clean)
    then have "clean_except X w5"
      using s5 by (rule uploadToS3_clean [rotated])
    then have "clean_except (X - {?i}) w6"
      using s6 by (rule unlinkSync_clean [rotated])
    then have "clean_except (X - {?i} - {?o}) w7"
      using s7 by (rule unlinkSync_clean [rotated])
    then show ?thesis
      using w' by simp
  qed
  show ?thesis
  proof (cases "style t = Zoom")
    case True
    then have "clean_except {?o, ?i} w3"
      using s3 c2 zoom_branch_clean by auto
    then have "clean_except ({?o, ?i} - {?i} - {?o}) w'"
      by (rule tail)
    then have "clean_except {} w'"
      by (rule clean_except_mono) auto
    then show ?thesis
      by (auto intro: clean_except_mono)
  next
    case False
    then have sl: "slide_branch e t b (showText it pn) pn w2 = (Inr u3, w3)"
      using s3 by simp
    have "clean_except {?o, ?s, ?i} w3"
      using slide_branch_clean(1) [OF sl c2] by simp
    then have "clean_except ({?o, ?s, ?i} - {?i} - {?o}) w'"
      by (rule tail)
    then have a: "clean_except {?s} w'"
      by (rule clean_except_mono) auto
    have "clean_except {} w'" if ok: "fs_error e Unlink ?s = None"
    proof -
      have "?s \<notin> {?i}"
        using withTextPath_not_input by simp
      then have "clean_except {?o, ?i} w3"
        using slide_branch_clean(2) [OF sl c2 ok] by simp
      then have "clean_except ({?o, ?i} - {?i} - {?o}) w'"
        by (rule tail)
      then show ?thesis
        by (rule clean_except_mono) auto
    qed
    with a show ?thesis by simp
  qed
qed

lemma handler_200:
  assumes "fst (handler e req w) = Response 200 body"
  shows "\<exists>key t url. generate e key t (productName req) (includeText req) w
           = (Inr url, snd (handler e req w))"
  using assms
  by (auto simp: handler_def split: if_splits option.splits prod.splits sum.splits)

lemma zoom_ambient:
  "getTemplateById ''zoom-ambient'' =
     Some \<lparr> template_id = ''zoom-ambient'', template_name = ''Ambient Zoom'', style = Zoom,
        musicFile = ''/musics/ambient.mp3'', durationSeconds = 6 \<rparr>"
  by (simp add: getTemplateById_def templates_def)

lemma frame_loop_ok:
  assumes "\<And>p. toFile_error e p = None"
  shows "\<exists>w'. frame_loop (render_frame e (framesDir e) iw ih n st pn) i k w = (Inr (), w') \<and>
           files w \<subseteq> files w' \<and> files w' \<subseteq> files w \<union> {q. prefix (framesDir e @ ''/'') q}"
proof (induction k arbitrary: i w)
  case 0
  then show ?case by (simp add: ret_def)
next
  case (Suc k)
  obtain w1 where s: "render_frame e (framesDir e) iw ih n st pn i w = (Inr (), w1)"
    and f: "files w1 = insert (frame_path (framesDir e) i) (files w)"
    by (simp add: render_frame_def sharp_toFile_def assms Let_def create_file_def log_call_def)
  from Suc.IH [of "Suc i" w1] obtain w' where
    "frame_loop (render_frame e (framesDir e) iw ih n st pn) (Suc i) k w1 = (Inr (), w')"
    "files w1 \<subseteq> files w'" "files w' \<subseteq> files w1 \<union> {q. prefix (framesDir e @ ''/'') q}"
    by blast
  then show ?case
    using s f prefix_frame_path [of e i] by (auto simp: andThen_def)
qed

lemma not_under_framesDir:
  "\<not> prefix (framesDir e @ ''/'') (inputImagePath e)"
  "\<not> prefix (framesDir e @ ''/'') (outputVideoPath e)"
  "inputImagePath e \<noteq> framesDir e" "outputVideoPath e \<noteq> framesDir e"
  "inputImagePath e \<noteq> outputVideoPath e"
  by (simp_all add: paths_unfolded)

lemma zoom_succeeds:
  assumes toFile: "\<And>p. toFile_error e p = None"
    and fs: "\<And>op p. fs_error e op p = None"
    and ffmpeg: "ffmpeg_error e = None"
    and meta: "metadata e b = Inr m"
    and get: "s3_get e key = Inr b"
    and put: "s3_put e (video_key e) = Inr url"
    and zoom: "style t = Zoom"
  shows "\<exists>w'. generate e key t pn it w = (Inr url, w')"
proof -
  let ?i = "inputImagePath e" and ?o = "outputVideoPath e" and ?d = "framesDir e"
  obtain w1 where s1: "getObjectBuffer e key w = (Inr b, w1)"
    by (simp add: getObjectBuffer_def get)
  obtain w2 where s2: "writeFileSync e ?i w1 = (Inr (), w2)" and f2: "?i \<in> files w2"
    by (simp add: writeFileSync_def fs create_file_def)
  obtain w3 where s3: "mkdirSync e ?d w2 = (Inr (), w3)" and f3: "?i \<in> files w3"
    using f2 by (simp add: mkdirSync_def fs create_file_def)
  obtain w4 where s4: "sharp_metadata e b w3 = (Inr m, w4)" and f4: "?i \<in> files w4"
    using f3 by (simp add: sharp_metadata_def meta log_call_def)
  from frame_loop_ok [of e "or_default (fst m) 1280" "or_default (snd m) 720" "frames t"
      "showText it pn" pn 0 "frames t" w4, OF toFile]
  obtain w5 where s5: "frame_loop (render_frame e ?d (or_default (fst m) 1280)
      (or_default (snd m) 720) (frames t) (showText it pn) pn) 0 (frames t) w4 = (Inr (), w5)"
    and f5: "?i \<in> files w5"
    using f4 by blast
  obtain w6 where s6: "ffmpeg_save e (Ffmpeg (path_join [?d, ''frame-%04d.png'']) (audio_input e t)
      None ?o) ?o w5 = (Inr (), w6)" and f6: "?i \<in> files w6" "?o \<in> files w6"
    using f5 by (simp add: ffmpeg_save_def ffmpeg create_file_def log_call_def)
  obtain w7 where s7: "rmSync e ?d w6 = (Inr (), w7)" and f7: "?i \<in> files w7" "?o \<in> files w7"
    using f6 by (simp add: rmSync_def fs not_under_framesDir)
  have z: "zoom_branch e t b (showText it pn) pn w2 = (Inr (), w7)"
    by (simp add: zoom_branch_def andThen_def s3 s4 s5 s6 s7 Let_def)
  have s8: "readFileSync e ?o w7 = (Inr (), w7)"
    using f7 by (simp add: readFileSync_def fs)
  obtain w9 where s9: "uploadToS3 e (video_key e) w7 = (Inr url, w9)"
    and f9: "?i \<in> files w9" "?o \<in> files w9"
    using f7 by (simp add: uploadToS3_def put log_call_def)
  obtain w10 where s10: "unlinkSync e ?i w9 = (Inr (), w10)" and f10: "?o \<in> files w10"
    using f9 not_under_framesDir(5) [of e] by (simp add: unlinkSync_def fs)
  obtain w11 where s11: "unlinkSync e ?o w10 = (Inr (), w11)"
    using f10 by (simp add: unlinkSync_def fs)
  have "generate e key t pn it w = (Inr url, w11)"
    by (simp add: generate_def andThen_def s1 s2 zoom z s8 s9 s10 s11 ret_def)
  then show ?thesis ..
qed

text \<open>A run of the zoom template, all its 150 frames rendered, ends in success too.\<close>

lemma zoom_run:
  "fst (handler ok_env zoom_request empty_world) =
     Response 200 (VideoUrlBody ''https://bucket.s3.us-east-1.amazonaws.com/videos%2F1002-output-1000.mp4.mp4'')"
proof -
  let ?t = "\<lparr> template_id = ''zoom-ambient'', template_name = ''Ambient Zoom'', style = Zoom,
        musicFile = ''/musics/ambient.mp3'', durationSeconds = 6 \<rparr>"
  have "video_key ok_env = ''videos/1002-output-1000.mp4.mp4''"
    by (simp add: video_key_def ok_env_def dec_examples)
  then have "s3_put ok_env (video_key ok_env) =
      Inr ''https://bucket.s3.us-east-1.amazonaws.com/videos%2F1002-output-1000.mp4.mp4''"
    by (simp add: ok_env_def)
  then have "\<exists>w'. generate ok_env ''uploads/1-a.jpg'' ?t (Some ''A&B<Test>'') (Some True) empty_world
      = (Inr ''https://bucket.s3.us-east-1.amazonaws.com/videos%2F1002-output-1000.mp4.mp4'', w')"
    by (intro zoom_succeeds [where b = "[255, 216, 255]" and m = "(Some 1920, Some 1080)"])
      (simp_all add: ok_env_def)
  then show ?thesis
    by (auto simp: handler_def zoom_request_def slide_request_def zoom_ambient ffmpegPath_ok_env
        falsy_def)
qed

text \<open>
  On the success path the cleanup at the end of the \<open>try\<close> block removes what the run has
  written. When a run that starts with no file written answers 200, every temporary file
  it has written is gone: the input image, the frames directory and the frames in it,
  and the output video, and the slide composite too unless deleting it throws, which the
  handler ignores.
\<close>

lemma success_removes_temp_files:
  assumes "fst (handler e req w) = Response 200 body" and "created w = {}"
  shows "files (snd (handler e req w)) \<inter> created (snd (handler e req w)) \<subseteq> {withTextPath e} \<and>
         (fs_error e Unlink (withTextPath e) = None \<longrightarrow>
            files (snd (handler e req w)) \<inter> created (snd (handler e req w)) = {})"
proof -
  from handler_200 [OF assms(1)] obtain key t url where
    g: "generate e key t (productName req) (includeText req) w = (Inr url, snd (handler e req w))"
    by blast
  have "clean_except {} w"
    using assms(2) by (simp add: clean_except_def)
  from generate_clean [OF g this] show ?thesis
    by (simp add: clean_except_def)
qed



text \<open>
  Claim C4. The claim holds on the success path and fails on the failure paths: the
  \<open>catch\<close> block answers 500 and removes nothing, so the cleanup at the end of the
  \<open>try\<close> block is skipped by every error thrown before it. Here the upload of the video
  throws, the handler answers 500, and the input image and the output video are still
  there. The same request leaves no file when the upload succeeds.
\<close>

theorem upload_failure_leaves_temp_files:
  "fst (handler upload_fails_env slide_request empty_world) = Response 500 (ErrorBody ''AccessDenied'') \<and>
   files (snd (handler upload_fails_env slide_request empty_world)) =
     {''/tmp/input-1000.jpg'', ''/tmp/output-1000.mp4''} \<and>
   fst (handler ok_env slide_request empty_world) =
     Response 200 (VideoUrlBody ''https://bucket.s3.us-east-1.amazonaws.com/videos%2F1002-output-1000.mp4.mp4'') \<and>
   files (snd (handler ok_env slide_request empty_world)) = {}"
proof -
  have p1: "ffmpegPath upload_fails_env = Some ''/app/node_modules/ffmpeg-static/ffmpeg''"
    by (simp add: ffmpegPath_def upload_fails_env_def ok_env_def falsy_def)
  have r1: "handler upload_fails_env slide_request empty_world =
      (Response 500 (ErrorBody ''AccessDenied''),
       snd (handler upload_fails_env slide_request empty_world))"
    apply (simp add: handler_def slide_request_def slide_funky p1 falsy_def)
    apply (simp add: run_defs showText_def trim_def is_space_def dec_examples
        upload_fails_env_def ok_env_def empty_world_def)
    done
  have f1: "files (snd (handler upload_fails_env slide_request empty_world)) =
       {''/tmp/input-1000.jpg'', ''/tmp/output-1000.mp4''}"
    apply (simp add: handler_def slide_request_def slide_funky p1 falsy_def)
    apply (auto simp add: run_defs showText_def trim_def is_space_def dec_examples
        upload_fails_env_def ok_env_def empty_world_def)
    done
  have r2: "fst (handler ok_env slide_request empty_world) =
     Response 200 (VideoUrlBody ''https://bucket.s3.us-east-1.amazonaws.com/videos%2F1002-output-1000.mp4.mp4'')"
    apply (simp add: handler_def slide_request_def slide_funky ffmpegPath_ok_env falsy_def)
    apply (simp add: run_defs showText_def trim_def is_space_def dec_examples
        ok_env_def empty_world_def)
    done
  have f2: "files (snd (handler ok_env slide_request empty_world)) = {}"
    apply (simp add: handler_def slide_request_def slide_funky ffmpegPath_ok_env falsy_def)
    apply (auto simp add: run_defs showText_def trim_def is_space_def dec_examples
        ok_env_def empty_world_def)
    done
  from r1 have "fst (handler upload_fails_env slide_request empty_world)
      = Response 500 (ErrorBody ''AccessDenied'')"
    by (metis fst_conv)
  then show ?thesis
    using f1 r2 f2 by simp
qed

end
